theory Spec2Isabelle
  imports Main "HOL-Library.Word" "HOL-Library.Sublist"
begin

section \<open>Data model\<close>

text \<open>
  A \<^verbatim>\<open>time.Time\<close> is modelled as the instant it denotes: the number of nanoseconds
  since Go's zero time (January 1, year 1, 00:00:00 UTC), an unbounded integer.
  \<^verbatim>\<open>time.Time{}\<close> is 0, \<^verbatim>\<open>Before\<close> and \<^verbatim>\<open>After\<close> compare instants, and \<^verbatim>\<open>Add\<close>
  moves an instant by a duration (Go's seconds counter is an \<^verbatim>\<open>int64\<close>, which no
  instant within billions of years of the present overflows).
  A \<^verbatim>\<open>time.Duration\<close> is an \<^verbatim>\<open>int64\<close> count of nanoseconds, so it is a 64-bit
  word read as two's complement; unary minus on it wraps as Go's does.
\<close>

type_synonym timestamp = int
type_synonym duration = "64 word"

definition zero_time :: timestamp where
  "zero_time = 0"

definition Add :: "timestamp \<Rightarrow> duration \<Rightarrow> timestamp" where
  "Add t d = t + sint d"

definition Before :: "timestamp \<Rightarrow> timestamp \<Rightarrow> bool" where
  "Before t u = (t < u)"

definition After :: "timestamp \<Rightarrow> timestamp \<Rightarrow> bool" where
  "After t u = (u < t)"

text \<open>
  Errors are values. An error is either one the hosting service's client library
  returned (opaque, carried as its message) or one built by \<^verbatim>\<open>fmt.Errorf\<close> from a
  format string and its arguments; a \<^verbatim>\<open>%w\<close> or \<^verbatim>\<open>%v\<close> argument is the wrapped
  error, which Go allows to be nil. Formatting itself is not modelled: a message
  is its format string with its argument list.
\<close>

datatype arg = S string | N nat | E "error option"
  and error = HostError string | Errorf string "arg list"

text \<open>\<^verbatim>\<open>github.Repository\<close> of pkg/github: the summary the analyzer works on.\<close>

record Repository =
  Owner :: string
  Name :: string
  LastActivity :: timestamp
  IsArchived :: bool

text \<open>
  The client library's repository and issue objects, with the fields this program
  reads or writes. Both fields are pointers in the library, hence optional.
\<close>

record gh_repository =
  PushedAt :: "timestamp option"
  Archived :: "bool option"

record gh_issue =
  UpdatedAt :: "timestamp option"

text \<open>
  \<^verbatim>\<open>github.IssueListByRepoOptions\<close>, with the fields the program sets: the sort key,
  the direction and the page size. The program sets no filter (milestone, state,
  assignee, labels, since); those fields keep their zero values and are left out.
\<close>

record issue_opts =
  Sort :: string
  Direction :: string
  PerPage :: int

text \<open>The library's getters are nil-safe: a nil receiver or a nil field gives the zero time.\<close>

definition GetPushedAt :: "gh_repository option \<Rightarrow> timestamp" where
  "GetPushedAt r = (case r of None \<Rightarrow> zero_time
                     | Some x \<Rightarrow> (case PushedAt x of None \<Rightarrow> zero_time | Some t \<Rightarrow> t))"

definition GetUpdatedAt :: "gh_issue option \<Rightarrow> timestamp" where
  "GetUpdatedAt i = (case i of None \<Rightarrow> zero_time
                      | Some x \<Rightarrow> (case UpdatedAt x of None \<Rightarrow> zero_time | Some t \<Rightarrow> t))"

section \<open>Effects\<close>

text \<open>
  Everything the program does to the outside is an event: a call of the hosting
  service (with the error it returned), a sleep (in milliseconds), a line written
  with \<^verbatim>\<open>log.Printf\<close>, or a call of the logger at level Info, Warn or Error.
  Debug-level logger calls are left out of the model. Every operation returns the
  events it produced, in order, next to its result and the new state of the host.
\<close>

datatype api_call =
    OrganizationsGet string
  | UsersGet string
  | RepositoriesGet string string
  | IssuesListByRepo string string issue_opts
  | RepositoriesCreateFork string string string
  | RepositoriesDelete string string
  | RepositoriesEdit string string gh_repository

datatype level = InfoLevel | WarnLevel | ErrorLevel

datatype event =
    Call api_call "error option"
  | Sleep nat
  | Printf string "arg list"
  | Log level string "arg list"

text \<open>
  The hosting service is a parameter: a state of type \<open>'h\<close> and one function for each
  method of the client library the program calls. A method returns what the Go
  method returns (without the HTTP response, which the program never reads) and
  the next state of the host.
\<close>

record 'h api =
  Organizations_Get :: "string \<Rightarrow> 'h \<Rightarrow> error option \<times> 'h"
  Users_Get :: "string \<Rightarrow> 'h \<Rightarrow> error option \<times> 'h"
  Repositories_Get :: "string \<Rightarrow> string \<Rightarrow> 'h \<Rightarrow> (gh_repository option \<times> error option) \<times> 'h"
  Issues_ListByRepo ::
    "string \<Rightarrow> string \<Rightarrow> issue_opts \<Rightarrow> 'h \<Rightarrow> (gh_issue option list \<times> error option) \<times> 'h"
  Repositories_CreateFork :: "string \<Rightarrow> string \<Rightarrow> string \<Rightarrow> 'h \<Rightarrow> error option \<times> 'h"
  Repositories_Delete :: "string \<Rightarrow> string \<Rightarrow> 'h \<Rightarrow> error option \<times> 'h"
  Repositories_Edit :: "string \<Rightarrow> string \<Rightarrow> gh_repository \<Rightarrow> 'h \<Rightarrow> error option \<times> 'h"

section \<open>pkg/util: the continuation resolver\<close>

text \<open>
  \<^verbatim>\<open>ForceProcessing\<close> reads the process-wide flag \<^verbatim>\<open>FORCE_PROCESSING\<close>, here its first
  argument. It returns true when the caller must treat the error as fatal, and
  writes the error to the log whenever there is one.
\<close>

definition ForceProcessing :: "bool \<Rightarrow> error option \<Rightarrow> bool \<times> event list" where
  "ForceProcessing FORCE_PROCESSING e =
     (if FORCE_PROCESSING then False else e \<noteq> None,
      if e \<noteq> None then [Printf ''ERROR CONTINUANCE: %v'' [E e]] else [])"

section \<open>pkg/github: the client\<close>

text \<open>
  The options \<^verbatim>\<open>GetLastActivity\<close> builds for its issue query: sorted by update time,
  descending, one entry per page.
\<close>

definition issueOpts :: issue_opts where
  "issueOpts = \<lparr>Sort = ''updated'', Direction = ''desc'', PerPage = 1\<rparr>"

definition GetLastActivity ::
  "'h api \<Rightarrow> bool \<Rightarrow> string \<Rightarrow> string \<Rightarrow> 'h \<Rightarrow> timestamp \<times> error option \<times> 'h \<times> event list" where
  "GetLastActivity c force owner repo h =
     (let ((repository, err), h1) = Repositories_Get c owner repo h;
          ev1 = [Call (RepositoriesGet owner repo) err];
          (fatal, ev2) = ForceProcessing force err
      in if fatal then
           (zero_time, Some (Errorf ''failed to get repository info: %w'' [E err]), h1,
            ev1 @ ev2 @ [Log ErrorLevel ''Failed to get repository info for %s/%s: %v''
                           [S owner, S repo, E err]])
         else
           let lastActivity = GetPushedAt repository;
               ((issues, err'), h2) = Issues_ListByRepo c owner repo issueOpts h1;
               ev3 = [Call (IssuesListByRepo owner repo issueOpts) err']
           in if err' = None \<and> length issues > 0 then
                let issueTime = GetUpdatedAt (hd issues)
                in (if After issueTime lastActivity then issueTime else lastActivity,
                    None, h2, ev1 @ ev2 @ ev3)
              else
                let (fatal', ev4) = ForceProcessing force err'
                in (lastActivity, None, h2,
                    ev1 @ ev2 @ ev3 @ ev4 @
                    (if fatal' then [Log WarnLevel ''Error checking issues/PRs for %s/%s: %v''
                                       [S owner, S repo, E err']]
                     else [])))"

text \<open>The error \<^verbatim>\<open>CreateArchiveNamespace\<close> returns when the namespace is neither an organization nor a user.\<close>

definition namespace_missing :: "string \<Rightarrow> error" where
  "namespace_missing namespace =
     Errorf ''archive namespace '%s' does not exist and cannot be created automatically. Please create the organization or user account manually''
       [S namespace]"

definition CreateArchiveNamespace ::
  "'h api \<Rightarrow> string \<Rightarrow> 'h \<Rightarrow> error option \<times> 'h \<times> event list" where
  "CreateArchiveNamespace c namespace h =
     (let (err, h1) = Organizations_Get c namespace h;
          ev1 = [Call (OrganizationsGet namespace) err]
      in if err = None then (None, h1, ev1)
         else
           let (err', h2) = Users_Get c namespace h1;
               ev2 = [Call (UsersGet namespace) err']
           in if err' = None then (None, h2, ev1 @ ev2)
              else
                (Some (namespace_missing namespace), h2,
                 ev1 @ ev2 @ [Log ErrorLevel ''Archive namespace %s does not exist'' [S namespace]]))"

definition ForkRepository ::
  "'h api \<Rightarrow> bool \<Rightarrow> string \<Rightarrow> string \<Rightarrow> string \<Rightarrow> 'h \<Rightarrow> error option \<times> 'h \<times> event list" where
  "ForkRepository c force owner repo targetOrg h =
     (let ((existing, err), h1) = Repositories_Get c targetOrg repo h;
          ev1 = [Call (RepositoriesGet targetOrg repo) err]
      in if err = None then
           (None, h1,
            ev1 @ [Log InfoLevel ''Repository %s/%s already exists, skipping fork creation''
                     [S targetOrg, S repo]])
         else
           let (err', h2) = Repositories_CreateFork c owner repo targetOrg h1;
               ev2 = [Call (RepositoriesCreateFork owner repo targetOrg) err'];
               (fatal, ev3) = ForceProcessing force err'
           in if fatal then
                (if err' \<noteq> None then Some (Errorf ''failed to fork repository: %w'' [E err'])
                 else None,
                 h2,
                 ev1 @ ev2 @ ev3 @ [Log ErrorLevel ''Failed to fork %s/%s to %s: %v''
                                      [S owner, S repo, S targetOrg, E err']])
              else (None, h2, ev1 @ ev2 @ ev3))"

definition DeleteRepository ::
  "'h api \<Rightarrow> bool \<Rightarrow> string \<Rightarrow> string \<Rightarrow> 'h \<Rightarrow> error option \<times> 'h \<times> event list" where
  "DeleteRepository c force owner repo h =
     (let (err, h1) = Repositories_Delete c owner repo h;
          ev1 = [Call (RepositoriesDelete owner repo) err];
          (fatal, ev2) = ForceProcessing force err
      in if fatal then
           (Some (Errorf ''failed to delete repository: %w'' [E err]), h1,
            ev1 @ ev2 @ [Log ErrorLevel ''Failed to delete repository %s/%s: %v''
                           [S owner, S repo, E err]])
         else (None, h1, ev1 @ ev2))"

definition SetArchiveStatus ::
  "'h api \<Rightarrow> bool \<Rightarrow> string \<Rightarrow> string \<Rightarrow> bool \<Rightarrow> 'h \<Rightarrow> error option \<times> 'h \<times> event list" where
  "SetArchiveStatus c force owner repo archived h =
     (let action = (if \<not> archived then ''unarchive'' else ''archive'');
          ((repository, err), h1) = Repositories_Get c owner repo h;
          ev1 = [Call (RepositoriesGet owner repo) err];
          (fatal, ev2) = ForceProcessing force err
      in if fatal then
           (Some (Errorf ''failed to get repository info: %w'' [E err]), h1,
            ev1 @ ev2 @ [Log ErrorLevel ''Failed to get repository info for %s/%s: %v''
                           [S owner, S repo, E err]])
         else
           (case repository of
              None \<Rightarrow>
                (Some (Errorf ''repository object is nil'' []), h1,
                 ev1 @ ev2 @ [Log ErrorLevel ''Repository object for %s/%s is nil''
                                [S owner, S repo]])
            | Some r \<Rightarrow>
                let r' = r\<lparr>Archived := Some archived\<rparr>;
                    (err', h2) = Repositories_Edit c owner repo r' h1;
                    ev3 = [Call (RepositoriesEdit owner repo r') err'];
                    (fatal', ev4) = ForceProcessing force err'
                in if fatal' then
                     (Some (Errorf ''failed to update archive status: %w'' [E err']), h2,
                      ev1 @ ev2 @ ev3 @ ev4 @
                      [Log ErrorLevel ''Failed to %s repository %s/%s: %v''
                         [S action, S owner, S repo, E err']])
                   else (None, h2, ev1 @ ev2 @ ev3 @ ev4)))"

section \<open>The archiver\<close>

text \<open>\<^verbatim>\<open>Archiver.ArchiveRepository\<close>; the wait of five seconds is the event \<open>Sleep 5000\<close>.\<close>

definition ArchiveRepository ::
  "'h api \<Rightarrow> bool \<Rightarrow> string \<Rightarrow> string \<Rightarrow> string \<Rightarrow> 'h \<Rightarrow> error option \<times> 'h \<times> event list" where
  "ArchiveRepository c force owner archiveNamespace repo h =
     (let ev0 = [Log InfoLevel ''Creating archive namespace %s...'' [S archiveNamespace]];
          (err1, h1, ev1) = CreateArchiveNamespace c archiveNamespace h;
          (fatal1, fp1) = ForceProcessing force err1
      in if fatal1 then
           (Some (Errorf ''failed to create archive namespace: %w'' [E err1]), h1,
            ev0 @ ev1 @ fp1 @ [Log ErrorLevel ''Failed to create archive namespace %s: %v''
                                 [S archiveNamespace, E err1]])
         else
           let ev2 = [Log InfoLevel ''Forking %s/%s to %s...'' [S owner, S repo, S archiveNamespace]];
               (err2, h2, ev3) = ForkRepository c force owner repo archiveNamespace h1;
               (fatal2, fp2) = ForceProcessing force err2
           in if fatal2 then
                (Some (Errorf ''failed to fork repository: %w'' [E err2]), h2,
                 ev0 @ ev1 @ fp1 @ ev2 @ ev3 @ fp2 @
                 [Log ErrorLevel ''Failed to fork repository %s/%s: %v'' [S owner, S repo, E err2]])
              else
                let ev4 = [Sleep 5000,
                           Log InfoLevel ''Deleting original repository %s/%s...'' [S owner, S repo]];
                    (err3, h3, ev5) = DeleteRepository c force owner repo h2;
                    (fatal3, fp3) = ForceProcessing force err3
                in if fatal3 then
                     (Some (Errorf ''failed to delete original repository: %w'' [E err3]), h3,
                      ev0 @ ev1 @ fp1 @ ev2 @ ev3 @ fp2 @ ev4 @ ev5 @ fp3 @
                      [Log ErrorLevel ''Failed to delete original repository %s/%s: %v''
                         [S owner, S repo, E err3]])
                   else
                     let ev6 = [Log InfoLevel ''Setting archived status on %s/%s...''
                                  [S archiveNamespace, S repo]];
                         (err4, h4, ev7) = SetArchiveStatus c force archiveNamespace repo True h3;
                         (fatal4, fp4) = ForceProcessing force err4
                     in if fatal4 then
                          (Some (Errorf ''failed to set archived status: %w'' [E err4]), h4,
                           ev0 @ ev1 @ fp1 @ ev2 @ ev3 @ fp2 @ ev4 @ ev5 @ fp3 @ ev6 @ ev7 @ fp4 @
                           [Log ErrorLevel ''Failed to set archived status on %s/%s: %v''
                              [S archiveNamespace, S repo, E err4]])
                        else
                          (None, h4,
                           ev0 @ ev1 @ fp1 @ ev2 @ ev3 @ fp2 @ ev4 @ ev5 @ fp3 @ ev6 @ ev7 @ fp4 @
                           [Log InfoLevel ''Repository %s successfully archived to %s/%s''
                              [S repo, S archiveNamespace, S repo]]))"

section \<open>The analyzer\<close>

text \<open>
  \<^verbatim>\<open>Analyzer.FindInactiveRepositories\<close>. The slice \<open>repos\<close> is the caller's: the
  loop reads element \<open>i\<close> of it into the loop variable \<open>repo\<close>, a copy, and
  the model returns the slice as it is when the function ends, next to the
  function's results. \<^verbatim>\<open>time.Now()\<close> is the parameter \<open>now\<close>. Go's nil slice is
  the empty list. The pause of 100 milliseconds is the event \<open>Sleep 100\<close>.
\<close>

fun range_loop ::
  "'h api \<Rightarrow> bool \<Rightarrow> timestamp \<Rightarrow> nat list \<Rightarrow> Repository list \<Rightarrow> Repository list \<Rightarrow> 'h
     \<Rightarrow> Repository list \<times> Repository list \<times> error option \<times> 'h \<times> event list" where
  "range_loop c force cutoffDate [] repos inactiveRepos h = (repos, inactiveRepos, None, h, [])"
| "range_loop c force cutoffDate (i # is) repos inactiveRepos h =
     (let repo = repos ! i
      in if IsArchived repo then range_loop c force cutoffDate is repos inactiveRepos h
         else
           let (lastActivity, err, h1, ev1) = GetLastActivity c force (Owner repo) (Name repo) h;
               (fatal, ev2) = ForceProcessing force err
           in if fatal then
                (repos, [],
                 Some (Errorf ''failed to check activity for %s/%s: %w''
                         [S (Owner repo), S (Name repo), E err]),
                 h1,
                 ev1 @ ev2 @ [Log ErrorLevel ''Failed to check activity for %s/%s: %v''
                                [S (Owner repo), S (Name repo), E err]])
              else
                let repo = repo\<lparr>LastActivity := lastActivity\<rparr>;
                    inactiveRepos = (if Before lastActivity cutoffDate then inactiveRepos @ [repo]
                                     else inactiveRepos);
                    (repos', result, err', h2, ev3) =
                       range_loop c force cutoffDate is repos inactiveRepos h1
                in (repos', result, err', h2, ev1 @ ev2 @ [Sleep 100] @ ev3))"

definition FindInactiveRepositories ::
  "'h api \<Rightarrow> bool \<Rightarrow> duration \<Rightarrow> timestamp \<Rightarrow> Repository list \<Rightarrow> 'h
     \<Rightarrow> Repository list \<times> Repository list \<times> error option \<times> 'h \<times> event list" where
  "FindInactiveRepositories c force inactivityPeriod now repos h =
     (let cutoffDate = Add now (- inactivityPeriod);
          ev0 = [Log InfoLevel ''Analyzing %d repositories for inactivity'' [N (length repos)]];
          (repos', inactiveRepos, err, h', ev1) =
             range_loop c force cutoffDate [0..<length repos] repos [] h
      in if err \<noteq> None then (repos', [], err, h', ev0 @ ev1)
         else (repos', inactiveRepos, None, h',
               ev0 @ ev1 @ [Log InfoLevel ''Found %d inactive repositories out of %d total''
                              [N (length inactiveRepos), N (length repos)]]))"

section \<open>What the service owes an issue query\<close>

text \<open>
  The issues of a repository, most recently updated first, and what it means for a
  page of answers to honour the options of a query on a repository whose issues
  are \<open>all\<close>: asked for the order "updated, descending", the page is the first
  \<open>PerPage\<close> issues, most recently updated first. Other orders are not constrained.
\<close>

definition most_recent_first :: "gh_issue option list \<Rightarrow> gh_issue option list" where
  "most_recent_first all = rev (sort_key GetUpdatedAt all)"

definition honours :: "issue_opts \<Rightarrow> gh_issue option list \<Rightarrow> gh_issue option list \<Rightarrow> bool" where
  "honours opts all page =
     (Sort opts = ''updated'' \<and> Direction opts = ''desc'' \<longrightarrow>
        page = take (nat (PerPage opts)) (most_recent_first all))"

section \<open>An in-memory hosting service\<close>

text \<open>
  A small hosting service to run the operations on: the organizations and users it
  knows, its repositories and their issues (in no particular order), and the
  calls that are out of order and answer with a server error. A call that names
  something the service does not have answers 404.
\<close>

record sim_host =
  orgs :: "string list"
  users :: "string list"
  hosted :: "((string \<times> string) \<times> gh_repository) list"
  tickets :: "((string \<times> string) \<times> gh_issue option list) list"
  outage :: "api_call list"

definition unavailable :: error where
  "unavailable = HostError ''503 Service Unavailable''"

definition not_found :: error where
  "not_found = HostError ''404 Not Found''"

definition sim_Organizations_Get :: "string \<Rightarrow> sim_host \<Rightarrow> error option \<times> sim_host" where
  "sim_Organizations_Get name h =
     (if OrganizationsGet name \<in> set (outage h) then Some unavailable
      else if name \<in> set (orgs h) then None else Some not_found, h)"

definition sim_Users_Get :: "string \<Rightarrow> sim_host \<Rightarrow> error option \<times> sim_host" where
  "sim_Users_Get name h =
     (if UsersGet name \<in> set (outage h) then Some unavailable
      else if name \<in> set (users h) then None else Some not_found, h)"

definition sim_Repositories_Get ::
  "string \<Rightarrow> string \<Rightarrow> sim_host \<Rightarrow> (gh_repository option \<times> error option) \<times> sim_host" where
  "sim_Repositories_Get owner repo h =
     (if RepositoriesGet owner repo \<in> set (outage h) then (None, Some unavailable)
      else (case map_of (hosted h) (owner, repo) of
              None \<Rightarrow> (None, Some not_found)
            | Some r \<Rightarrow> (Some r, None)), h)"

text \<open>
  The issue listing honours the request: asked for the order "updated, descending"
  it answers with the most recently updated issues first, otherwise in the order
  of its table, and never with more entries than the page size.
\<close>

definition sim_Issues_ListByRepo ::
  "string \<Rightarrow> string \<Rightarrow> issue_opts \<Rightarrow> sim_host \<Rightarrow> (gh_issue option list \<times> error option) \<times> sim_host" where
  "sim_Issues_ListByRepo owner repo opts h =
     (if IssuesListByRepo owner repo opts \<in> set (outage h) then ([], Some unavailable)
      else (case map_of (tickets h) (owner, repo) of
              None \<Rightarrow> ([], None)
            | Some is \<Rightarrow>
                (take (nat (PerPage opts))
                   (if Sort opts = ''updated'' \<and> Direction opts = ''desc''
                    then most_recent_first is else is),
                 None)), h)"

definition sim_Repositories_CreateFork ::
  "string \<Rightarrow> string \<Rightarrow> string \<Rightarrow> sim_host \<Rightarrow> error option \<times> sim_host" where
  "sim_Repositories_CreateFork owner repo org h =
     (if RepositoriesCreateFork owner repo org \<in> set (outage h) then (Some unavailable, h)
      else (case map_of (hosted h) (owner, repo) of
              None \<Rightarrow> (Some not_found, h)
            | Some r \<Rightarrow>
                if org \<in> set (orgs h) \<or> org \<in> set (users h)
                then (None, h\<lparr>hosted := hosted h @ [((org, repo), r)]\<rparr>)
                else (Some not_found, h)))"

definition sim_Repositories_Delete :: "string \<Rightarrow> string \<Rightarrow> sim_host \<Rightarrow> error option \<times> sim_host" where
  "sim_Repositories_Delete owner repo h =
     (if RepositoriesDelete owner repo \<in> set (outage h) then (Some unavailable, h)
      else (case map_of (hosted h) (owner, repo) of
              None \<Rightarrow> (Some not_found, h)
            | Some r \<Rightarrow> (None, h\<lparr>hosted := filter (\<lambda>kv. fst kv \<noteq> (owner, repo)) (hosted h)\<rparr>)))"

definition sim_Repositories_Edit ::
  "string \<Rightarrow> string \<Rightarrow> gh_repository \<Rightarrow> sim_host \<Rightarrow> error option \<times> sim_host" where
  "sim_Repositories_Edit owner repo r h =
     (if RepositoriesEdit owner repo r \<in> set (outage h) then (Some unavailable, h)
      else (case map_of (hosted h) (owner, repo) of
              None \<Rightarrow> (Some not_found, h)
            | Some old \<Rightarrow>
                (None, h\<lparr>hosted := map (\<lambda>kv. if fst kv = (owner, repo) then (fst kv, r) else kv)
                                       (hosted h)\<rparr>)))"

definition sim_api :: "sim_host api" where
  "sim_api = \<lparr> Organizations_Get = sim_Organizations_Get,
               Users_Get = sim_Users_Get,
               Repositories_Get = sim_Repositories_Get,
               Issues_ListByRepo = sim_Issues_ListByRepo,
               Repositories_CreateFork = sim_Repositories_CreateFork,
               Repositories_Delete = sim_Repositories_Delete,
               Repositories_Edit = sim_Repositories_Edit \<rparr>"

text \<open>What the in-memory host holds of a repository: its last push and its issues.\<close>

definition sim_last_push :: "sim_host \<Rightarrow> string \<Rightarrow> string \<Rightarrow> timestamp" where
  "sim_last_push h owner repo = GetPushedAt (map_of (hosted h) (owner, repo))"

definition sim_issues :: "sim_host \<Rightarrow> string \<Rightarrow> string \<Rightarrow> gh_issue option list" where
  "sim_issues h owner repo = (case map_of (tickets h) (owner, repo) of None \<Rightarrow> [] | Some is \<Rightarrow> is)"

text \<open>
  Two hosts for concrete runs: on the first, user \<open>alice\<close> owns \<open>old-proj\<close> (last
  push at instant 100) and nothing is called \<open>alice-archive\<close>; on the second the
  user \<open>alice-archive\<close> exists as well.
\<close>

definition alice_host :: sim_host where
  "alice_host = \<lparr> orgs = [], users = [''alice''],
                  hosted = [((''alice'', ''old-proj''), \<lparr>PushedAt = Some 100, Archived = Some False\<rparr>)],
                  tickets = [], outage = [] \<rparr>"

definition alice_archive_host :: sim_host where
  "alice_archive_host = alice_host\<lparr>users := [''alice'', ''alice-archive'']\<rparr>"

text \<open>
  Two more: a host on which the fork \<open>alice-archive/old-proj\<close> is already there, and
  one on which deleting \<open>alice/old-proj\<close> is out of order.
\<close>

definition alice_forked_host :: sim_host where
  "alice_forked_host =
     alice_archive_host\<lparr>hosted :=
       [((''alice'', ''old-proj''), \<lparr>PushedAt = Some 100, Archived = Some False\<rparr>),
        ((''alice-archive'', ''old-proj''), \<lparr>PushedAt = Some 100, Archived = Some False\<rparr>)]\<rparr>"

definition alice_delete_down_host :: sim_host where
  "alice_delete_down_host =
     alice_archive_host\<lparr>outage := [RepositoriesDelete ''alice'' ''old-proj'']\<rparr>"

text \<open>
  Inputs for the analyzer: a live repository and an archived one. Hosts: one where
  \<open>alice/old-proj\<close> has two issues, updated at the instants 10 and 250; one where
  the repository fetch for \<open>alice/old-proj\<close> is out of order; one with both, the
  issues and the failing fetch; and one with a last push dated one year before the
  instant 63900000000000000000 (in the year 2025).
\<close>

definition old_proj :: Repository where
  "old_proj = \<lparr>Owner = ''alice'', Name = ''old-proj'', LastActivity = 0, IsArchived = False\<rparr>"

definition attic :: Repository where
  "attic = \<lparr>Owner = ''alice'', Name = ''attic'', LastActivity = 0, IsArchived = True\<rparr>"

definition alice_issue_host :: sim_host where
  "alice_issue_host =
     alice_host\<lparr>tickets := [((''alice'', ''old-proj''),
                               [Some \<lparr>UpdatedAt = Some 10\<rparr>, Some \<lparr>UpdatedAt = Some 250\<rparr>])]\<rparr>"

definition alice_fetch_down_host :: sim_host where
  "alice_fetch_down_host = alice_host\<lparr>outage := [RepositoriesGet ''alice'' ''old-proj'']\<rparr>"

definition alice_flaky_host :: sim_host where
  "alice_flaky_host = alice_issue_host\<lparr>outage := [RepositoriesGet ''alice'' ''old-proj'']\<rparr>"

definition alice_dated_host :: sim_host where
  "alice_dated_host =
     alice_host\<lparr>hosted := [((''alice'', ''old-proj''),
                              \<lparr>PushedAt = Some 63868464000000000000, Archived = Some False\<rparr>)]\<rparr>"

section \<open>Observing a run\<close>

text \<open>The hosting-service calls among a run's events, in order.\<close>

primrec calls :: "event list \<Rightarrow> api_call list" where
  "calls [] = []"
| "calls (e # es) = (case e of Call c x \<Rightarrow> c # calls es | _ \<Rightarrow> calls es)"

text \<open>
  The timestamps a run fetched: the answers of \<^verbatim>\<open>GetLastActivity\<close> for a list of
  repositories in turn, every lookup made on the host as the previous one left it.
\<close>

fun fetched :: "'h api \<Rightarrow> bool \<Rightarrow> Repository list \<Rightarrow> 'h \<Rightarrow> (Repository \<times> timestamp) list" where
  "fetched c force [] h = []"
| "fetched c force (r # rs) h =
     (case GetLastActivity c force (Owner r) (Name r) h of
        (t, err, h1, ev) \<Rightarrow> (r, t) # fetched c force rs h1)"

text \<open>
  The lookups the analyzer owes the service: for every non-archived input
  repository, in input order, the repository fetch and the issue query.
\<close>

definition lookups :: "Repository list \<Rightarrow> api_call list" where
  "lookups repos =
     concat (map (\<lambda>r. [RepositoriesGet (Owner r) (Name r),
                         IssuesListByRepo (Owner r) (Name r) issueOpts])
               (filter (\<lambda>r. \<not> IsArchived r) repos))"

section \<open>What the specification says of the analyzer\<close>

text \<open>
  The authoritative last activity of a repository, in the specification's words:
  the later of its last push and the update time of its most recently updated
  issue or pull request.
\<close>

definition authoritative :: "timestamp \<Rightarrow> gh_issue option list \<Rightarrow> timestamp" where
  "authoritative pushed all = Max (set (pushed # map GetUpdatedAt all))"

text \<open>
  \<open>spec_findInactive\<close> follows the specification's words: the non-archived input
  repositories whose authoritative last activity is strictly before
  \<open>now - threshold\<close>, in input order, each carrying that timestamp. The last push
  and the issues of a repository are those the host holds, given by owner and
  name; the threshold is a number of nanoseconds.
\<close>

definition spec_findInactive ::
  "(string \<Rightarrow> string \<Rightarrow> timestamp) \<Rightarrow> (string \<Rightarrow> string \<Rightarrow> gh_issue option list) \<Rightarrow> int \<Rightarrow> timestamp
     \<Rightarrow> Repository list \<Rightarrow> Repository list" where
  "spec_findInactive last_push issues_of threshold now repos =
     map (\<lambda>r. r\<lparr>LastActivity :=
                  authoritative (last_push (Owner r) (Name r)) (issues_of (Owner r) (Name r))\<rparr>)
       (filter (\<lambda>r. \<not> IsArchived r \<and>
                    authoritative (last_push (Owner r) (Name r)) (issues_of (Owner r) (Name r))
                      < now - threshold)
          repos)"

section \<open>Basic facts\<close>

lemmas sim_defs =
  most_recent_first_def sim_api_def sim_Organizations_Get_def sim_Users_Get_def sim_Repositories_Get_def
  sim_Issues_ListByRepo_def sim_Repositories_CreateFork_def sim_Repositories_Delete_def
  sim_Repositories_Edit_def unavailable_def not_found_def

lemma calls_append: "calls (xs @ ys) = calls xs @ calls ys"
  by (induction xs) (auto split: event.splits)

lemma ForceProcessing_None: "ForceProcessing force None = (False, [])"
  by (simp add: ForceProcessing_def)

lemma ForceProcessing_True:
  "ForceProcessing True e = (False, case e of None \<Rightarrow> [] | Some x \<Rightarrow> [Printf ''ERROR CONTINUANCE: %v'' [E e]])"
  by (simp add: ForceProcessing_def split: option.splits)

lemma ForceProcessing_False:
  "ForceProcessing False (Some x) = (True, [Printf ''ERROR CONTINUANCE: %v'' [E (Some x)]])"
  by (simp add: ForceProcessing_def)

lemma calls_ForceProcessing: "calls (snd (ForceProcessing force e)) = []"
  by (simp add: ForceProcessing_def)

subsection \<open>The client's operations, case by case\<close>

lemma CreateArchiveNamespace_org:
  "Organizations_Get c ns h = (None, h1) \<Longrightarrow>
   CreateArchiveNamespace c ns h = (None, h1, [Call (OrganizationsGet ns) None])"
  by (simp add: CreateArchiveNamespace_def)

lemma CreateArchiveNamespace_user:
  "Organizations_Get c ns h = (Some e1, h1) \<Longrightarrow> Users_Get c ns h1 = (None, h2) \<Longrightarrow>
   CreateArchiveNamespace c ns h =
     (None, h2, [Call (OrganizationsGet ns) (Some e1), Call (UsersGet ns) None])"
  by (simp add: CreateArchiveNamespace_def)

lemma CreateArchiveNamespace_missing:
  "Organizations_Get c ns h = (Some e1, h1) \<Longrightarrow> Users_Get c ns h1 = (Some e2, h2) \<Longrightarrow>
   CreateArchiveNamespace c ns h =
     (Some (namespace_missing ns), h2,
      [Call (OrganizationsGet ns) (Some e1), Call (UsersGet ns) (Some e2),
       Log ErrorLevel ''Archive namespace %s does not exist'' [S ns]])"
  by (simp add: CreateArchiveNamespace_def)

lemma calls_CreateArchiveNamespace:
  "calls (snd (snd (CreateArchiveNamespace c ns h))) = [OrganizationsGet ns]
   \<or> calls (snd (snd (CreateArchiveNamespace c ns h))) = [OrganizationsGet ns, UsersGet ns]"
  by (simp add: CreateArchiveNamespace_def Let_def case_prod_beta)

lemma CreateArchiveNamespace_ok:
  assumes "CreateArchiveNamespace c ns h = (None, h1, ev1)"
  shows "ev1 = [Call (OrganizationsGet ns) None]
         \<or> (\<exists>e. ev1 = [Call (OrganizationsGet ns) (Some e), Call (UsersGet ns) None])"
  using assms
  by (auto simp add: CreateArchiveNamespace_def Let_def split: prod.splits if_splits)

lemma ForkRepository_exists:
  "Repositories_Get c ns repo h = ((r, None), h1) \<Longrightarrow>
   ForkRepository c force owner repo ns h =
     (None, h1,
      [Call (RepositoriesGet ns repo) None,
       Log InfoLevel ''Repository %s/%s already exists, skipping fork creation'' [S ns, S repo]])"
  by (simp add: ForkRepository_def)

lemma ForkRepository_created:
  "Repositories_Get c ns repo h = ((r, Some e), h1) \<Longrightarrow>
   Repositories_CreateFork c owner repo ns h1 = (None, h2) \<Longrightarrow>
   ForkRepository c force owner repo ns h =
     (None, h2,
      [Call (RepositoriesGet ns repo) (Some e), Call (RepositoriesCreateFork owner repo ns) None])"
  by (simp add: ForkRepository_def ForceProcessing_None)

lemma ForkRepository_first_call:
  "\<exists>x rest. snd (snd (ForkRepository c force owner repo ns h)) = Call (RepositoriesGet ns repo) x # rest"
  by (simp add: ForkRepository_def Let_def case_prod_beta)

lemma ForkRepository_forced: "fst (ForkRepository c True owner repo ns h) = None"
  by (simp add: ForkRepository_def Let_def case_prod_beta ForceProcessing_True)

lemma calls_ForkRepository:
  "calls (snd (snd (ForkRepository c force owner repo ns h))) = [RepositoriesGet ns repo]
   \<or> calls (snd (snd (ForkRepository c force owner repo ns h))) =
        [RepositoriesGet ns repo, RepositoriesCreateFork owner repo ns]"
  by (simp add: ForkRepository_def Let_def case_prod_beta calls_append calls_ForceProcessing)

lemma DeleteRepository_result:
  "Repositories_Delete c owner repo h = (err, h1) \<Longrightarrow>
   DeleteRepository c force owner repo h =
     (if fst (ForceProcessing force err) then Some (Errorf ''failed to delete repository: %w'' [E err])
      else None,
      h1,
      [Call (RepositoriesDelete owner repo) err] @ snd (ForceProcessing force err) @
      (if fst (ForceProcessing force err)
       then [Log ErrorLevel ''Failed to delete repository %s/%s: %v'' [S owner, S repo, E err]]
       else []))"
  by (simp add: DeleteRepository_def case_prod_beta)

lemma SetArchiveStatus_first_call:
  "\<exists>x rest. snd (snd (SetArchiveStatus c force owner repo a h)) = Call (RepositoriesGet owner repo) x # rest"
  by (simp add: SetArchiveStatus_def Let_def case_prod_beta split: option.splits)

lemma SetArchiveStatus_ok:
  "Repositories_Get c owner repo h = ((Some r, None), h1) \<Longrightarrow>
   Repositories_Edit c owner repo (r\<lparr>Archived := Some a\<rparr>) h1 = (None, h2) \<Longrightarrow>
   SetArchiveStatus c force owner repo a h =
     (None, h2,
      [Call (RepositoriesGet owner repo) None,
       Call (RepositoriesEdit owner repo (r\<lparr>Archived := Some a\<rparr>)) None])"
  by (simp add: SetArchiveStatus_def ForceProcessing_None)

lemma calls_SetArchiveStatus:
  "RepositoriesDelete a b \<notin> set (calls (snd (snd (SetArchiveStatus c force owner repo x h))))"
  "RepositoriesCreateFork a b d \<notin> set (calls (snd (snd (SetArchiveStatus c force owner repo x h))))"
  by (simp_all add: SetArchiveStatus_def Let_def case_prod_beta calls_append calls_ForceProcessing
        split: option.splits)

lemma calls_DeleteRepository:
  "calls (snd (snd (DeleteRepository c force owner repo h))) = [RepositoriesDelete owner repo]"
  by (simp add: DeleteRepository_def Let_def case_prod_beta calls_append calls_ForceProcessing)

lemma DeleteRepository_forced:
  "Repositories_Delete c owner repo h = (err, h1) \<Longrightarrow>
   DeleteRepository c True owner repo h =
     (None, h1, Call (RepositoriesDelete owner repo) err # snd (ForceProcessing True err))"
  by (simp add: DeleteRepository_result ForceProcessing_True)

lemma Call_in_calls: "Call a x \<in> set evs \<Longrightarrow> a \<in> set (calls evs)"
  by (induction evs) (auto split: event.splits)

lemma Call_notin_ForceProcessing: "Call a x \<notin> set (snd (ForceProcessing force e))"
  by (simp add: ForceProcessing_def)

subsection \<open>The archive transaction, step by step\<close>

lemma ArchiveRepository_steps:
  assumes "CreateArchiveNamespace c ns h = (err1, h1, ev1)"
      and "ForkRepository c force owner repo ns h1 = (err2, h2, ev3)"
      and "DeleteRepository c force owner repo h2 = (err3, h3, ev5)"
      and "SetArchiveStatus c force ns repo True h3 = (err4, h4, ev7)"
  shows "ArchiveRepository c force owner ns repo h =
    (if fst (ForceProcessing force err1) then
       (Some (Errorf ''failed to create archive namespace: %w'' [E err1]), h1,
        [Log InfoLevel ''Creating archive namespace %s...'' [S ns]] @ ev1 @
        snd (ForceProcessing force err1) @
        [Log ErrorLevel ''Failed to create archive namespace %s: %v'' [S ns, E err1]])
     else if fst (ForceProcessing force err2) then
       (Some (Errorf ''failed to fork repository: %w'' [E err2]), h2,
        [Log InfoLevel ''Creating archive namespace %s...'' [S ns]] @ ev1 @
        snd (ForceProcessing force err1) @
        [Log InfoLevel ''Forking %s/%s to %s...'' [S owner, S repo, S ns]] @ ev3 @
        snd (ForceProcessing force err2) @
        [Log ErrorLevel ''Failed to fork repository %s/%s: %v'' [S owner, S repo, E err2]])
     else if fst (ForceProcessing force err3) then
       (Some (Errorf ''failed to delete original repository: %w'' [E err3]), h3,
        [Log InfoLevel ''Creating archive namespace %s...'' [S ns]] @ ev1 @
        snd (ForceProcessing force err1) @
        [Log InfoLevel ''Forking %s/%s to %s...'' [S owner, S repo, S ns]] @ ev3 @
        snd (ForceProcessing force err2) @
        [Sleep 5000, Log InfoLevel ''Deleting original repository %s/%s...'' [S owner, S repo]] @
        ev5 @ snd (ForceProcessing force err3) @
        [Log ErrorLevel ''Failed to delete original repository %s/%s: %v'' [S owner, S repo, E err3]])
     else if fst (ForceProcessing force err4) then
       (Some (Errorf ''failed to set archived status: %w'' [E err4]), h4,
        [Log InfoLevel ''Creating archive namespace %s...'' [S ns]] @ ev1 @
        snd (ForceProcessing force err1) @
        [Log InfoLevel ''Forking %s/%s to %s...'' [S owner, S repo, S ns]] @ ev3 @
        snd (ForceProcessing force err2) @
        [Sleep 5000, Log InfoLevel ''Deleting original repository %s/%s...'' [S owner, S repo]] @
        ev5 @ snd (ForceProcessing force err3) @
        [Log InfoLevel ''Setting archived status on %s/%s...'' [S ns, S repo]] @ ev7 @
        snd (ForceProcessing force err4) @
        [Log ErrorLevel ''Failed to set archived status on %s/%s: %v'' [S ns, S repo, E err4]])
     else
       (None, h4,
        [Log InfoLevel ''Creating archive namespace %s...'' [S ns]] @ ev1 @
        snd (ForceProcessing force err1) @
        [Log InfoLevel ''Forking %s/%s to %s...'' [S owner, S repo, S ns]] @ ev3 @
        snd (ForceProcessing force err2) @
        [Sleep 5000, Log InfoLevel ''Deleting original repository %s/%s...'' [S owner, S repo]] @
        ev5 @ snd (ForceProcessing force err3) @
        [Log InfoLevel ''Setting archived status on %s/%s...'' [S ns, S repo]] @ ev7 @
        snd (ForceProcessing force err4) @
        [Log InfoLevel ''Repository %s successfully archived to %s/%s'' [S repo, S ns, S repo]]))"
  using assms by (simp add: ArchiveRepository_def Let_def case_prod_beta)

subsection \<open>The analyzer's loop\<close>

lemma GetLastActivity_steps:
  assumes "Repositories_Get c owner repo h = ((repository, err), h1)"
      and "Issues_ListByRepo c owner repo issueOpts h1 = ((issues, err'), h2)"
  shows "GetLastActivity c force owner repo h =
    (if fst (ForceProcessing force err) then
       (zero_time, Some (Errorf ''failed to get repository info: %w'' [E err]), h1,
        [Call (RepositoriesGet owner repo) err] @ snd (ForceProcessing force err) @
        [Log ErrorLevel ''Failed to get repository info for %s/%s: %v'' [S owner, S repo, E err]])
     else
       (if err' = None \<and> issues \<noteq> []
        then max (GetPushedAt repository) (GetUpdatedAt (hd issues))
        else GetPushedAt repository,
        None, h2,
        [Call (RepositoriesGet owner repo) err] @ snd (ForceProcessing force err) @
        [Call (IssuesListByRepo owner repo issueOpts) err'] @
        (if err' = None \<and> issues \<noteq> [] then []
         else snd (ForceProcessing force err') @
              (if fst (ForceProcessing force err')
               then [Log WarnLevel ''Error checking issues/PRs for %s/%s: %v''
                       [S owner, S repo, E err']]
               else []))))"
  using assms
  by (auto simp add: GetLastActivity_def Let_def case_prod_beta After_def max_def)

lemma GetLastActivity_forced: "fst (snd (GetLastActivity c True owner repo h)) = None"
  by (simp add: GetLastActivity_def Let_def case_prod_beta ForceProcessing_True)

lemma GetLastActivity_fatal:
  "fst (ForceProcessing force (fst (snd (GetLastActivity c force owner repo h)))) =
     (fst (snd (GetLastActivity c force owner repo h)) \<noteq> None)"
  by (cases force) (simp_all add: GetLastActivity_forced ForceProcessing_True ForceProcessing_def)

lemma calls_GetLastActivity:
  "calls (snd (snd (snd (GetLastActivity c force owner repo h)))) =
     (if fst (snd (GetLastActivity c force owner repo h)) = None
      then [RepositoriesGet owner repo, IssuesListByRepo owner repo issueOpts]
      else [RepositoriesGet owner repo])"
  by (simp add: GetLastActivity_def Let_def case_prod_beta calls_append calls_ForceProcessing)

text \<open>One turn of the loop: the repository is skipped, or the lookup is fatal, or the loop goes on.\<close>

lemma range_loop_skip:
  "IsArchived (repos ! i) \<Longrightarrow>
   range_loop c force cutoff (i # is) repos acc h = range_loop c force cutoff is repos acc h"
  by simp

lemma range_loop_abort:
  assumes "\<not> IsArchived (repos ! i)"
      and "GetLastActivity c force (Owner (repos ! i)) (Name (repos ! i)) h = (t, Some e, h1, ev1)"
  shows "range_loop c force cutoff (i # is) repos acc h =
           (repos, [],
            Some (Errorf ''failed to check activity for %s/%s: %w''
                    [S (Owner (repos ! i)), S (Name (repos ! i)), E (Some e)]),
            h1,
            ev1 @ snd (ForceProcessing force (Some e)) @
            [Log ErrorLevel ''Failed to check activity for %s/%s: %v''
               [S (Owner (repos ! i)), S (Name (repos ! i)), E (Some e)]])"
proof -
  have "fst (ForceProcessing force (Some e))"
    using GetLastActivity_fatal [of force c "Owner (repos ! i)" "Name (repos ! i)" h] assms(2)
    by simp
  then show ?thesis using assms by (simp add: Let_def case_prod_beta)
qed

lemma range_loop_next:
  assumes "\<not> IsArchived (repos ! i)"
      and "GetLastActivity c force (Owner (repos ! i)) (Name (repos ! i)) h = (t, None, h1, ev1)"
      and "range_loop c force cutoff is repos
             (if t < cutoff then acc @ [(repos ! i)\<lparr>LastActivity := t\<rparr>] else acc) h1 =
           (repos', result, err', h2, ev3)"
  shows "range_loop c force cutoff (i # is) repos acc h =
           (repos', result, err', h2, ev1 @ [Sleep 100] @ ev3)"
  using assms by (simp add: Let_def ForceProcessing_None Before_def)


lemma range_loop_turn [case_names skip abort proceed]:
  obtains
    (skip) "IsArchived (repos ! i)"
      "range_loop c force cutoff (i # is) repos acc h = range_loop c force cutoff is repos acc h"
  | (abort) t e h1 ev1 where
      "\<not> IsArchived (repos ! i)"
      "GetLastActivity c force (Owner (repos ! i)) (Name (repos ! i)) h = (t, Some e, h1, ev1)"
      "force = False"
      "range_loop c force cutoff (i # is) repos acc h =
         (repos, [],
          Some (Errorf ''failed to check activity for %s/%s: %w''
                  [S (Owner (repos ! i)), S (Name (repos ! i)), E (Some e)]),
          h1,
          ev1 @ snd (ForceProcessing force (Some e)) @
          [Log ErrorLevel ''Failed to check activity for %s/%s: %v''
             [S (Owner (repos ! i)), S (Name (repos ! i)), E (Some e)]])"
  | (proceed) t h1 ev1 repos' result err' h2 ev3 where
      "\<not> IsArchived (repos ! i)"
      "GetLastActivity c force (Owner (repos ! i)) (Name (repos ! i)) h = (t, None, h1, ev1)"
      "range_loop c force cutoff is repos
         (if t < cutoff then acc @ [(repos ! i)\<lparr>LastActivity := t\<rparr>] else acc) h1 =
       (repos', result, err', h2, ev3)"
      "range_loop c force cutoff (i # is) repos acc h =
         (repos', result, err', h2, ev1 @ [Sleep 100] @ ev3)"
proof (cases "IsArchived (repos ! i)")
  case True
  then show ?thesis by (rule skip [OF True range_loop_skip])
next
  case False
  obtain t err h1 ev1 where
    g: "GetLastActivity c force (Owner (repos ! i)) (Name (repos ! i)) h = (t, err, h1, ev1)"
    by (metis prod_cases4)
  show ?thesis
  proof (cases err)
    case None
    obtain repos' result err' h2 ev3 where
      r: "range_loop c force cutoff is repos
            (if t < cutoff then acc @ [(repos ! i)\<lparr>LastActivity := t\<rparr>] else acc) h1 =
          (repos', result, err', h2, ev3)"
      by (metis prod_cases5)
    show ?thesis
      using proceed [OF False g [unfolded None] r] range_loop_next [OF False g [unfolded None] r]
      by blast
  next
    case (Some e)
    have "force = False"
      using GetLastActivity_forced [of c "Owner (repos ! i)" "Name (repos ! i)" h] g Some
      by (cases force) auto
    then show ?thesis
      using abort [OF False g [unfolded Some]] range_loop_abort [OF False g [unfolded Some]]
      by blast
  qed
qed

lemma range_loop_frame: "fst (range_loop c force cutoff is repos acc h) = repos"
proof (induction "is" arbitrary: acc h)
  case Nil
  show ?case by simp
next
  case (Cons i "is")
  show ?case
  proof (cases rule: range_loop_turn [of repos i c force cutoff "is" acc h])
    case skip
    then show ?thesis using Cons.IH by simp
  next
    case (abort t e h1 ev1)
    then show ?thesis by simp
  next
    case (proceed t h1 ev1 repos' result err' h2 ev3)
    then show ?thesis using Cons.IH [of "if t < cutoff then acc @ [(repos ! i)\<lparr>LastActivity := t\<rparr>] else acc" h1]
      by simp
  qed
qed

lemma range_loop_forced: "fst (snd (snd (range_loop c True cutoff is repos acc h))) = None"
proof (induction "is" arbitrary: acc h)
  case Nil
  show ?case by simp
next
  case (Cons i "is")
  show ?case
  proof (cases rule: range_loop_turn [of repos i c True cutoff "is" acc h])
    case skip
    then show ?thesis using Cons.IH by simp
  next
    case (abort t e h1 ev1)
    then show ?thesis by simp
  next
    case (proceed t h1 ev1 repos' result err' h2 ev3)
    then show ?thesis using Cons.IH [of "if t < cutoff then acc @ [(repos ! i)\<lparr>LastActivity := t\<rparr>] else acc" h1]
      by simp
  qed
qed

lemma range_loop_result:
  "fst (snd (snd (range_loop c force cutoff is repos acc h))) = None \<Longrightarrow>
   fst (snd (range_loop c force cutoff is repos acc h)) =
     acc @ map (\<lambda>(r, t). r\<lparr>LastActivity := t\<rparr>)
             (filter (\<lambda>(r, t). t < cutoff)
                (fetched c force (filter (\<lambda>r. \<not> IsArchived r) (map ((!) repos) is)) h))"
proof (induction "is" arbitrary: acc h)
  case Nil
  show ?case by simp
next
  case (Cons i "is")
  show ?case
  proof (cases rule: range_loop_turn [of repos i c force cutoff "is" acc h])
    case skip
    then show ?thesis using Cons by simp
  next
    case (abort t e h1 ev1)
    then show ?thesis using Cons.prems by simp
  next
    case (proceed t h1 ev1 repos' result err' h2 ev3)
    then show ?thesis
      using Cons.IH [of "if t < cutoff then acc @ [(repos ! i)\<lparr>LastActivity := t\<rparr>] else acc" h1]
        Cons.prems
      by simp
  qed
qed

lemma range_loop_calls:
  "prefix (calls (snd (snd (snd (snd (range_loop c force cutoff is repos acc h))))))
     (lookups (map ((!) repos) is))
   \<and> (fst (snd (snd (range_loop c force cutoff is repos acc h))) = None \<longrightarrow>
        calls (snd (snd (snd (snd (range_loop c force cutoff is repos acc h))))) =
          lookups (map ((!) repos) is))"
proof (induction "is" arbitrary: acc h)
  case Nil
  show ?case by (simp add: lookups_def)
next
  case (Cons i "is")
  show ?case
  proof (cases rule: range_loop_turn [of repos i c force cutoff "is" acc h])
    case skip
    then show ?thesis using Cons.IH [of acc h] by (simp add: lookups_def)
  next
    case (abort t e h1 ev1)
    have "calls ev1 = [RepositoriesGet (Owner (repos ! i)) (Name (repos ! i))]"
      using calls_GetLastActivity [of c force "Owner (repos ! i)" "Name (repos ! i)" h] abort(2)
      by simp
    then show ?thesis
      using abort by (simp add: lookups_def calls_append calls_ForceProcessing)
  next
    case (proceed t h1 ev1 repos' result err' h2 ev3)
    have "calls ev1 = [RepositoriesGet (Owner (repos ! i)) (Name (repos ! i)),
                       IssuesListByRepo (Owner (repos ! i)) (Name (repos ! i)) issueOpts]"
      using calls_GetLastActivity [of c force "Owner (repos ! i)" "Name (repos ! i)" h] proceed(2)
      by simp
    then show ?thesis
      using proceed Cons.IH [of "if t < cutoff then acc @ [(repos ! i)\<lparr>LastActivity := t\<rparr>] else acc" h1]
      by (simp add: lookups_def calls_append)
  qed
qed

lemma sint_neg_duration:
  assumes "sint (d :: duration) \<noteq> - (2 ^ 63)"
  shows "sint (- d) = - sint d"
proof -
  have lo: "- (2 ^ 63) \<le> sint d" and hi: "sint d < 2 ^ 63"
    using sint_ge [of d] sint_lt [of d] by simp_all
  have "signed_take_bit 63 (- sint d) = - sint d"
    using lo hi assms by (intro signed_take_bit_int_eq_self) simp_all
  then show ?thesis by (simp add: sint_word_minus)
qed

lemma fetched_inputs: "map fst (fetched c force rs h) = rs"
  by (induction rs arbitrary: h) (simp_all add: case_prod_beta)

lemma FindInactiveRepositories_loop:
  assumes "range_loop c force (Add now (- inactivityPeriod)) [0..<length repos] repos [] h =
             (repos', inactiveRepos, err, h', ev1)"
  shows "FindInactiveRepositories c force inactivityPeriod now repos h =
           (repos', if err \<noteq> None then [] else inactiveRepos, err, h',
            [Log InfoLevel ''Analyzing %d repositories for inactivity'' [N (length repos)]] @ ev1 @
            (if err \<noteq> None then []
             else [Log InfoLevel ''Found %d inactive repositories out of %d total''
                     [N (length inactiveRepos), N (length repos)]]))"
  using assms by (simp add: FindInactiveRepositories_def)

lemma FindInactiveRepositories_result:
  assumes "FindInactiveRepositories c force inactivityPeriod now repos h =
             (repos', result, None, h', evs)"
  shows "result = map (\<lambda>(r, t). r\<lparr>LastActivity := t\<rparr>)
                    (filter (\<lambda>(r, t). t < Add now (- inactivityPeriod))
                       (fetched c force (filter (\<lambda>r. \<not> IsArchived r) repos) h))"
proof -
  obtain repos0 inactiveRepos err h0 ev1 where
    loop: "range_loop c force (Add now (- inactivityPeriod)) [0..<length repos] repos [] h =
             (repos0, inactiveRepos, err, h0, ev1)"
    by (metis prod_cases5)
  have err: "err = None" and res: "result = inactiveRepos"
    using assms by (auto simp add: FindInactiveRepositories_loop [OF loop] split: if_splits)
  show ?thesis
    using range_loop_result [of c force "Add now (- inactivityPeriod)" "[0..<length repos]" repos "[]" h]
      loop err res
    by (simp add: map_nth)
qed

lemmas host_defs = alice_host_def alice_issue_host_def alice_fetch_down_host_def
  alice_flaky_host_def alice_dated_host_def
lemmas run_defs = FindInactiveRepositories_def GetLastActivity_def issueOpts_def
  ForceProcessing_def Let_def
  GetPushedAt_def GetUpdatedAt_def Add_def Before_def After_def zero_time_def

subsection \<open>Issue listings\<close>

lemma sorted_le_last: "sorted ys \<Longrightarrow> y \<in> set ys \<Longrightarrow> y \<le> last (ys :: int list)"
  by (induction ys) auto

lemma most_recent_first_hd:
  assumes "all \<noteq> []"
  shows "GetUpdatedAt (hd (most_recent_first all)) = Max (GetUpdatedAt ` set all)"
proof -
  let ?s = "sort_key GetUpdatedAt all"
  have ne: "?s \<noteq> []"
    using assms by (metis length_sort list.size(3) length_0_conv)
  have hd: "hd (most_recent_first all) = last ?s"
    by (simp add: most_recent_first_def hd_rev)
  have lm: "last (map GetUpdatedAt ?s) = GetUpdatedAt (last ?s)"
    using ne by (simp add: last_map)
  have "Max (GetUpdatedAt ` set all) = GetUpdatedAt (last ?s)"
  proof (rule Max_eqI)
    show "finite (GetUpdatedAt ` set all)" by simp
  next
    fix y assume "y \<in> GetUpdatedAt ` set all"
    then have "y \<in> set (map GetUpdatedAt ?s)" by simp
    then have "y \<le> last (map GetUpdatedAt ?s)"
      using sorted_le_last [of "map GetUpdatedAt ?s" y] by simp
    then show "y \<le> GetUpdatedAt (last ?s)" using lm by simp
  next
    have "last ?s \<in> set ?s" using ne by (rule last_in_set)
    then have "last ?s \<in> set all" by simp
    then show "GetUpdatedAt (last ?s) \<in> GetUpdatedAt ` set all" by (rule imageI)
  qed
  then show ?thesis using hd by simp
qed

lemma honoured_page:
  assumes "honours issueOpts all page"
  shows "(if page \<noteq> [] then max p (GetUpdatedAt (hd page)) else p) = authoritative p all"
proof (cases "all = []")
  case True
  then have "page = []"
    using assms by (simp add: honours_def issueOpts_def most_recent_first_def)
  then show ?thesis using True by (simp add: authoritative_def)
next
  case False
  then have ne: "most_recent_first all \<noteq> []"
    by (metis most_recent_first_def length_sort length_rev length_0_conv)
  have "page = take 1 (most_recent_first all)"
    using assms by (simp add: honours_def issueOpts_def)
  then have page: "page = [hd (most_recent_first all)]"
    using ne by (cases "most_recent_first all") simp_all
  have "authoritative p all = max p (Max (GetUpdatedAt ` set all))"
    using False by (simp add: authoritative_def)
  then show ?thesis
    using page most_recent_first_hd [OF False] by simp
qed

subsection \<open>The analyzer on a host that answers truthfully\<close>

lemma GetLastActivity_truthful:
  assumes get: "Repositories_Get c owner repo h = ((rp, None), h)"
      and iss: "\<And>opts. \<exists>page. Issues_ListByRepo c owner repo opts h = ((page, None), h)
                              \<and> honours opts all page"
  shows "\<exists>ev. GetLastActivity c force owner repo h =
                (authoritative (GetPushedAt rp) all, None, h, ev)"
proof -
  obtain page where q: "Issues_ListByRepo c owner repo issueOpts h = ((page, None), h)"
    and hon: "honours issueOpts all page"
    using iss [of issueOpts] by blast
  show ?thesis
    using honoured_page [OF hon, of "GetPushedAt rp"]
    by (simp add: GetLastActivity_steps [OF get q] ForceProcessing_None)
qed

lemma range_loop_truthful:
  assumes "\<And>i. i \<in> set is \<Longrightarrow> \<not> IsArchived (repos ! i) \<Longrightarrow>
             \<exists>ev. GetLastActivity c force (Owner (repos ! i)) (Name (repos ! i)) h =
                    (ts (repos ! i), None, h, ev)"
  shows "\<exists>evs. range_loop c force cutoff is repos acc h =
           (repos,
            acc @ map (\<lambda>r. r\<lparr>LastActivity := ts r\<rparr>)
                    (filter (\<lambda>r. \<not> IsArchived r \<and> ts r < cutoff) (map ((!) repos) is)),
            None, h, evs)"
  using assms
proof (induction "is" arbitrary: acc)
  case Nil
  show ?case by simp
next
  case (Cons i "is")
  have rest: "\<And>acc. \<exists>evs. range_loop c force cutoff is repos acc h =
           (repos,
            acc @ map (\<lambda>r. r\<lparr>LastActivity := ts r\<rparr>)
                    (filter (\<lambda>r. \<not> IsArchived r \<and> ts r < cutoff) (map ((!) repos) is)),
            None, h, evs)"
    using Cons.IH Cons.prems by simp
  show ?case
  proof (cases rule: range_loop_turn [of repos i c force cutoff "is" acc h])
    case skip
    then show ?thesis using rest [of acc] by simp
  next
    case (abort t e h1 ev1)
    then show ?thesis using Cons.prems [of i] by simp
  next
    case (proceed t h1 ev1 repos' result err' h2 ev3)
    have "t = ts (repos ! i)" and "h1 = h"
      using Cons.prems [of i] proceed(1,2) by auto
    then show ?thesis
      using proceed rest [of "if t < cutoff then acc @ [(repos ! i)\<lparr>LastActivity := t\<rparr>] else acc"]
      by auto
  qed
qed

subsection \<open>The forced loop, piece by piece\<close>

lemma range_loop_same_elements:
  "map ((!) repos) is = map ((!) repos') is' \<Longrightarrow>
   snd (range_loop c force cutoff is repos acc h) = snd (range_loop c force cutoff is' repos' acc h)"
proof (induction "is" arbitrary: is' acc h)
  case Nil
  then show ?case by simp
next
  case (Cons i "is")
  then obtain i' is'' where is': "is' = i' # is''" and same: "repos ! i = repos' ! i'"
    and rest: "map ((!) repos) is = map ((!) repos') is''"
    by (cases is') auto
  note IH = Cons.IH [OF rest]
  show ?case
  proof (cases rule: range_loop_turn [of repos i c force cutoff "is" acc h])
    case skip
    then show ?thesis using IH [of acc h] same is' by simp
  next
    case (abort t e h1 ev1)
    then show ?thesis
      using range_loop_abort [of repos' i' c force h t e h1 ev1 cutoff is'' acc] same is'
      by simp
  next
    case (proceed t h1 ev1 rp result err' h2 ev3)
    obtain rp' where other: "range_loop c force cutoff is'' repos'
         (if t < cutoff then acc @ [(repos' ! i')\<lparr>LastActivity := t\<rparr>] else acc) h1 =
       (rp', result, err', h2, ev3)"
      using IH [of "if t < cutoff then acc @ [(repos ! i)\<lparr>LastActivity := t\<rparr>] else acc" h1]
        proceed(3) same
      by (metis prod.collapse snd_conv)
    have "range_loop c force cutoff (i' # is'') repos' acc h = (rp', result, err', h2, ev1 @ [Sleep 100] @ ev3)"
      using range_loop_next [of repos' i' c force h t h1 ev1 cutoff is'' acc rp' result err' h2 ev3]
        proceed(1,2) same other
      by simp
    then show ?thesis using proceed(4) is' by simp
  qed
qed

lemma range_loop_append:
  "range_loop c True cutoff (is1 @ is2) repos acc h =
     (case range_loop c True cutoff is1 repos acc h of
        (rp1, res1, e1, h1, ev1) \<Rightarrow>
          (case range_loop c True cutoff is2 repos res1 h1 of
             (rp2, res2, e2, h2, ev2) \<Rightarrow> (rp2, res2, e2, h2, ev1 @ ev2)))"
proof (induction is1 arbitrary: acc h)
  case Nil
  show ?case by (simp split: prod.splits)
next
  case (Cons i is1)
  show ?case
  proof (cases rule: range_loop_turn [of repos i c True cutoff "is1 @ is2" acc h])
    case skip
    then show ?thesis using Cons.IH [of acc h] by simp
  next
    case (abort t e h1 ev1)
    then show ?thesis by simp
  next
    case (proceed t h1 ev1 rp result err' h2 ev3)
    obtain rp1 res1 e1 h1' ev1' where first:
      "range_loop c True cutoff is1 repos
         (if t < cutoff then acc @ [(repos ! i)\<lparr>LastActivity := t\<rparr>] else acc) h1 =
       (rp1, res1, e1, h1', ev1')"
      by (metis prod_cases5)
    have whole: "range_loop c True cutoff (i # is1) repos acc h =
       (rp1, res1, e1, h1', ev1 @ [Sleep 100] @ ev1')"
      by (rule range_loop_next [OF proceed(1,2) first])
    show ?thesis
      using Cons.IH [of "if t < cutoff then acc @ [(repos ! i)\<lparr>LastActivity := t\<rparr>] else acc" h1]
        proceed(3,4) first whole
      by (auto split: prod.splits)
  qed
qed

lemma range_loop_accumulates:
  "fst (snd (range_loop c True cutoff is repos acc h)) =
     acc @ fst (snd (range_loop c True cutoff is repos [] h))
   \<and> snd (snd (range_loop c True cutoff is repos acc h)) =
       snd (snd (range_loop c True cutoff is repos [] h))"
proof (induction "is" arbitrary: acc h)
  case Nil
  show ?case by simp
next
  case (Cons i "is")
  show ?case
  proof (cases rule: range_loop_turn [of repos i c True cutoff "is" acc h])
    case skip
    then show ?thesis using Cons.IH [of acc h] by simp
  next
    case (abort t e h1 ev1)
    then show ?thesis by simp
  next
    case (proceed t h1 ev1 rp result err' h2 ev3)
    obtain rp0 res0 e0 h0 ev0 where zero:
      "range_loop c True cutoff is repos
         (if t < cutoff then [] @ [(repos ! i)\<lparr>LastActivity := t\<rparr>] else []) h1 =
       (rp0, res0, e0, h0, ev0)"
      by (metis prod_cases5)
    have whole0: "range_loop c True cutoff (i # is) repos [] h =
       (rp0, res0, e0, h0, ev1 @ [Sleep 100] @ ev0)"
      by (rule range_loop_next [OF proceed(1,2) zero])
    show ?thesis
      using Cons.IH [of "if t < cutoff then acc @ [(repos ! i)\<lparr>LastActivity := t\<rparr>] else acc" h1]
        Cons.IH [of "if t < cutoff then [] @ [(repos ! i)\<lparr>LastActivity := t\<rparr>] else []" h1]
      unfolding proceed(3,4) zero whole0
      by (auto split: if_splits) (metis prod.inject)+
  qed
qed

lemma FindInactiveRepositories_forced_loop:
  "fst (snd (FindInactiveRepositories c True inactivityPeriod now repos h)) =
     fst (snd (range_loop c True (Add now (- inactivityPeriod)) [0..<length repos] repos [] h))
   \<and> fst (snd (snd (snd (FindInactiveRepositories c True inactivityPeriod now repos h)))) =
     fst (snd (snd (snd (range_loop c True (Add now (- inactivityPeriod)) [0..<length repos] repos [] h))))"
proof -
  obtain repos0 inactiveRepos err h0 ev1 where
    loop: "range_loop c True (Add now (- inactivityPeriod)) [0..<length repos] repos [] h =
             (repos0, inactiveRepos, err, h0, ev1)"
    by (metis prod_cases5)
  have "err = None"
    using range_loop_forced [of c "Add now (- inactivityPeriod)" "[0..<length repos]" repos "[]" h] loop
    by simp
  then show ?thesis
    by (simp add: FindInactiveRepositories_loop [OF loop] loop)
qed

lemma elements_prefix: "map ((!) (pre @ r # post)) [0..<length pre] = map ((!) pre) [0..<length pre]"
  by (simp add: nth_append)

lemma elements_suffix:
  "map ((!) (pre @ r # post)) [Suc (length pre)..<length (pre @ r # post)] =
   map ((!) post) [0..<length post]"
proof -
  have "[Suc (length pre)..<length (pre @ r # post)] =
          map (\<lambda>i. i + Suc (length pre)) [0..<length post]"
    using map_add_upt [of "Suc (length pre)" "length post"] by (simp add: add.commute)
  moreover have "(pre @ r # post) ! (i + Suc (length pre)) = post ! i" for i
    by (simp add: nth_append)
  ultimately show ?thesis by (simp add: comp_def)
qed

lemma indices_split:
  "[0..<length (pre @ r # post)] =
     [0..<length pre] @ length pre # [Suc (length pre)..<length (pre @ r # post)]"
proof -
  have len: "length (pre @ r # post) = length pre + Suc (length post)"
    by simp
  have "[0..<length pre + Suc (length post)] =
          [0..<length pre] @ [length pre..<length pre + Suc (length post)]"
    using upt_add_eq_append [of 0 "length pre" "Suc (length post)"] by simp
  also have "[length pre..<length pre + Suc (length post)] =
               length pre # [Suc (length pre)..<length pre + Suc (length post)]"
    by (rule upt_conv_Cons) simp
  finally show ?thesis unfolding len .
qed

lemma FindInactiveRepositories_forced_at:
  assumes live: "\<not> IsArchived r"
      and reached: "h = fst (snd (snd (snd (FindInactiveRepositories c True inactivityPeriod now pre h0))))"
      and la: "GetLastActivity c True (Owner r) (Name r) h = (t, None, h2, ev)"
  shows "fst (snd (FindInactiveRepositories c True inactivityPeriod now (pre @ r # post) h0)) =
           fst (snd (FindInactiveRepositories c True inactivityPeriod now pre h0)) @
           (if t < Add now (- inactivityPeriod) then [r\<lparr>LastActivity := t\<rparr>] else []) @
           fst (snd (FindInactiveRepositories c True inactivityPeriod now post h2))"
proof -
  let ?cut = "Add now (- inactivityPeriod)"
  let ?all = "pre @ r # post"
  let ?tail = "[Suc (length pre)..<length ?all]"
  obtain rp1 res1 e1 h1 ev1 where first:
    "range_loop c True ?cut [0..<length pre] ?all [] h0 = (rp1, res1, e1, h1, ev1)"
    by (metis prod_cases5)
  have same1: "snd (range_loop c True ?cut [0..<length pre] ?all [] h0) =
               snd (range_loop c True ?cut [0..<length pre] pre [] h0)"
    by (rule range_loop_same_elements [OF elements_prefix])
  have p: "snd (range_loop c True ?cut [0..<length pre] pre [] h0) = (res1, e1, h1, ev1)"
    using same1 first by simp
  have res1: "res1 = fst (snd (FindInactiveRepositories c True inactivityPeriod now pre h0))"
    using FindInactiveRepositories_forced_loop [of c inactivityPeriod now pre h0] p by simp
  have h1: "h1 = h"
    using FindInactiveRepositories_forced_loop [of c inactivityPeriod now pre h0] p reached by simp
  have at: "?all ! length pre = r"
    by simp
  obtain rp2 res2 e2 h3 ev2 where rest:
    "range_loop c True ?cut ?tail ?all
       (if t < ?cut then res1 @ [(?all ! length pre)\<lparr>LastActivity := t\<rparr>] else res1) h2 =
     (rp2, res2, e2, h3, ev2)"
    by (metis prod_cases5)
  have live': "\<not> IsArchived (?all ! length pre)"
    using live by simp
  have la': "GetLastActivity c True (Owner (?all ! length pre)) (Name (?all ! length pre)) h1 =
               (t, None, h2, ev)"
    using la h1 by simp
  have turn: "range_loop c True ?cut (length pre # ?tail) ?all res1 h1 =
                (rp2, res2, e2, h3, ev @ [Sleep 100] @ ev2)"
    by (rule range_loop_next [OF live' la' rest])
  have whole: "fst (snd (range_loop c True ?cut [0..<length ?all] ?all [] h0)) = res2"
    unfolding indices_split range_loop_append first prod.case turn by simp
  have same2: "snd (range_loop c True ?cut ?tail ?all [] h2) =
               snd (range_loop c True ?cut [0..<length post] post [] h2)"
    by (rule range_loop_same_elements [OF elements_suffix])
  have "res2 = (if t < ?cut then res1 @ [r\<lparr>LastActivity := t\<rparr>] else res1) @
               fst (snd (range_loop c True ?cut ?tail ?all [] h2))"
    using range_loop_accumulates [of c ?cut ?tail ?all
            "if t < ?cut then res1 @ [(?all ! length pre)\<lparr>LastActivity := t\<rparr>] else res1" h2]
      rest
    by (simp del: upt_Suc)
  then have "res2 = res1 @ (if t < ?cut then [r\<lparr>LastActivity := t\<rparr>] else []) @
               fst (snd (FindInactiveRepositories c True inactivityPeriod now post h2))"
    using same2 FindInactiveRepositories_forced_loop [of c inactivityPeriod now post h2]
    by simp
  then show ?thesis
    using whole res1 FindInactiveRepositories_forced_loop [of c inactivityPeriod now ?all h0]
    by simp
qed

subsection \<open>The in-memory host\<close>

lemma authoritative_fold: "authoritative pushed all = fold max (map GetUpdatedAt all) pushed"
  unfolding authoritative_def by (rule Max.set_eq_fold)

lemma sim_honours:
  "Issues_ListByRepo sim_api owner repo opts h = ((page, None), h') \<Longrightarrow>
   honours opts (sim_issues h owner repo) page"
  by (auto simp add: sim_api_def sim_Issues_ListByRepo_def sim_issues_def honours_def
        most_recent_first_def split: if_splits option.splits)

lemma sim_issue_ok:
  "IssuesListByRepo owner repo opts \<notin> set (outage h) \<Longrightarrow>
   \<exists>page. Issues_ListByRepo sim_api owner repo opts h = ((page, None), h)
           \<and> honours opts (sim_issues h owner repo) page"
  by (auto simp add: sim_api_def sim_Issues_ListByRepo_def sim_issues_def honours_def
        most_recent_first_def split: option.splits)

lemma sim_fetch_ok:
  "RepositoriesGet owner repo \<notin> set (outage h) \<Longrightarrow> map_of (hosted h) (owner, repo) = Some x \<Longrightarrow>
   \<exists>rp. Repositories_Get sim_api owner repo h = ((rp, None), h)
         \<and> GetPushedAt rp = sim_last_push h owner repo"
  by (simp add: sim_api_def sim_Repositories_Get_def sim_last_push_def)

section \<open>The continuation resolver\<close>

text \<open>
  Claim C2. The resolver decides to continue (that is, \<^verbatim>\<open>ForceProcessing\<close> returns
  false) exactly when the error is absent or the force flag is true: a nil error
  continues under either flag, a present error aborts when the flag is false and
  continues when it is true.
\<close>

theorem ForceProcessing_continue_iff:
  "(\<not> fst (ForceProcessing force e)) = (e = None \<or> force)
   \<and> fst (ForceProcessing force None) = False
   \<and> fst (ForceProcessing False (Some x)) = True
   \<and> fst (ForceProcessing True (Some x)) = False"
  by (simp add: ForceProcessing_def)

section \<open>The archive transaction\<close>

text \<open>
  With the force flag set, a missing archive namespace does not stop the
  transaction. On a host where \<open>alice-archive\<close> is neither an organization nor a
  user, the forced run reports the error, fails to fork, deletes \<open>alice/old-proj\<close>
  all the same, finds nothing to mark as archived and returns no error.
\<close>

theorem ArchiveRepository_namespace_missing_forced:
  "Organizations_Get sim_api ''alice-archive'' alice_host = (Some not_found, alice_host)
   \<and> Users_Get sim_api ''alice-archive'' alice_host = (Some not_found, alice_host)
   \<and> ArchiveRepository sim_api True ''alice'' ''alice-archive'' ''old-proj'' alice_host =
     (None, alice_host\<lparr>hosted := []\<rparr>,
      [Log InfoLevel ''Creating archive namespace %s...'' [S ''alice-archive''],
       Call (OrganizationsGet ''alice-archive'') (Some not_found),
       Call (UsersGet ''alice-archive'') (Some not_found),
       Log ErrorLevel ''Archive namespace %s does not exist'' [S ''alice-archive''],
       Printf ''ERROR CONTINUANCE: %v'' [E (Some (namespace_missing ''alice-archive''))],
       Log InfoLevel ''Forking %s/%s to %s...'' [S ''alice'', S ''old-proj'', S ''alice-archive''],
       Call (RepositoriesGet ''alice-archive'' ''old-proj'') (Some not_found),
       Call (RepositoriesCreateFork ''alice'' ''old-proj'' ''alice-archive'') (Some not_found),
       Printf ''ERROR CONTINUANCE: %v'' [E (Some not_found)],
       Sleep 5000,
       Log InfoLevel ''Deleting original repository %s/%s...'' [S ''alice'', S ''old-proj''],
       Call (RepositoriesDelete ''alice'' ''old-proj'') None,
       Log InfoLevel ''Setting archived status on %s/%s...'' [S ''alice-archive'', S ''old-proj''],
       Call (RepositoriesGet ''alice-archive'' ''old-proj'') (Some not_found),
       Printf ''ERROR CONTINUANCE: %v'' [E (Some not_found)],
       Log ErrorLevel ''Repository object for %s/%s is nil'' [S ''alice-archive'', S ''old-proj''],
       Printf ''ERROR CONTINUANCE: %v'' [E (Some (Errorf ''repository object is nil'' []))],
       Log InfoLevel ''Repository %s successfully archived to %s/%s''
         [S ''old-proj'', S ''alice-archive'', S ''old-proj'']])"
proof -
  have org: "Organizations_Get sim_api ''alice-archive'' alice_host = (Some not_found, alice_host)"
    by (simp add: sim_api_def sim_Organizations_Get_def alice_host_def)
  have usr: "Users_Get sim_api ''alice-archive'' alice_host = (Some not_found, alice_host)"
    by (simp add: sim_api_def sim_Users_Get_def alice_host_def)
  have ns: "CreateArchiveNamespace sim_api ''alice-archive'' alice_host =
      (Some (namespace_missing ''alice-archive''), alice_host,
       [Call (OrganizationsGet ''alice-archive'') (Some not_found),
        Call (UsersGet ''alice-archive'') (Some not_found),
        Log ErrorLevel ''Archive namespace %s does not exist'' [S ''alice-archive'']])"
    by (simp add: CreateArchiveNamespace_def sim_api_def sim_Organizations_Get_def
          sim_Users_Get_def alice_host_def)
  have f: "ForkRepository sim_api True ''alice'' ''old-proj'' ''alice-archive'' alice_host =
      (None, alice_host,
       [Call (RepositoriesGet ''alice-archive'' ''old-proj'') (Some not_found),
        Call (RepositoriesCreateFork ''alice'' ''old-proj'' ''alice-archive'') (Some not_found),
        Printf ''ERROR CONTINUANCE: %v'' [E (Some not_found)]])"
    by (simp add: ForkRepository_def ForceProcessing_def sim_api_def sim_Repositories_Get_def
          sim_Repositories_CreateFork_def alice_host_def)
  have d: "DeleteRepository sim_api True ''alice'' ''old-proj'' alice_host =
      (None, alice_host\<lparr>hosted := []\<rparr>, [Call (RepositoriesDelete ''alice'' ''old-proj'') None])"
    by (simp add: DeleteRepository_def ForceProcessing_def sim_api_def
          sim_Repositories_Delete_def alice_host_def)
  have s: "SetArchiveStatus sim_api True ''alice-archive'' ''old-proj'' True (alice_host\<lparr>hosted := []\<rparr>) =
      (Some (Errorf ''repository object is nil'' []), alice_host\<lparr>hosted := []\<rparr>,
       [Call (RepositoriesGet ''alice-archive'' ''old-proj'') (Some not_found),
        Printf ''ERROR CONTINUANCE: %v'' [E (Some not_found)],
        Log ErrorLevel ''Repository object for %s/%s is nil'' [S ''alice-archive'', S ''old-proj'']])"
    by (simp add: SetArchiveStatus_def ForceProcessing_def sim_api_def sim_Repositories_Get_def
          alice_host_def)
  have "ArchiveRepository sim_api True ''alice'' ''alice-archive'' ''old-proj'' alice_host =
     (None, alice_host\<lparr>hosted := []\<rparr>,
      [Log InfoLevel ''Creating archive namespace %s...'' [S ''alice-archive''],
       Call (OrganizationsGet ''alice-archive'') (Some not_found),
       Call (UsersGet ''alice-archive'') (Some not_found),
       Log ErrorLevel ''Archive namespace %s does not exist'' [S ''alice-archive''],
       Printf ''ERROR CONTINUANCE: %v'' [E (Some (namespace_missing ''alice-archive''))],
       Log InfoLevel ''Forking %s/%s to %s...'' [S ''alice'', S ''old-proj'', S ''alice-archive''],
       Call (RepositoriesGet ''alice-archive'' ''old-proj'') (Some not_found),
       Call (RepositoriesCreateFork ''alice'' ''old-proj'' ''alice-archive'') (Some not_found),
       Printf ''ERROR CONTINUANCE: %v'' [E (Some not_found)],
       Sleep 5000,
       Log InfoLevel ''Deleting original repository %s/%s...'' [S ''alice'', S ''old-proj''],
       Call (RepositoriesDelete ''alice'' ''old-proj'') None,
       Log InfoLevel ''Setting archived status on %s/%s...'' [S ''alice-archive'', S ''old-proj''],
       Call (RepositoriesGet ''alice-archive'' ''old-proj'') (Some not_found),
       Printf ''ERROR CONTINUANCE: %v'' [E (Some not_found)],
       Log ErrorLevel ''Repository object for %s/%s is nil'' [S ''alice-archive'', S ''old-proj''],
       Printf ''ERROR CONTINUANCE: %v'' [E (Some (Errorf ''repository object is nil'' []))],
       Log InfoLevel ''Repository %s successfully archived to %s/%s''
         [S ''old-proj'', S ''alice-archive'', S ''old-proj'']])"
    by (simp add: ArchiveRepository_steps [OF ns f d s] ForceProcessing_True)
  with org usr show ?thesis by simp
qed


text \<open>
  Claim C1, as the code has it. If the namespace-verification step finds the
  archive namespace neither as an organization nor as a user, then with the force
  flag not set the transaction aborts at once with the namespace-missing error
  (wrapped as a failure to create the namespace) and performs no later step: its
  only service calls are the two checks. With the force flag set it reports the
  error and goes on to the fork step.
\<close>

theorem ArchiveRepository_namespace_missing:
  assumes org: "Organizations_Get c ns h = (Some e1, h1)"
      and usr: "Users_Get c ns h1 = (Some e2, h2)"
  shows "ArchiveRepository c False owner ns repo h =
           (Some (Errorf ''failed to create archive namespace: %w'' [E (Some (namespace_missing ns))]),
            h2,
            [Log InfoLevel ''Creating archive namespace %s...'' [S ns],
             Call (OrganizationsGet ns) (Some e1),
             Call (UsersGet ns) (Some e2),
             Log ErrorLevel ''Archive namespace %s does not exist'' [S ns],
             Printf ''ERROR CONTINUANCE: %v'' [E (Some (namespace_missing ns))],
             Log ErrorLevel ''Failed to create archive namespace %s: %v''
               [S ns, E (Some (namespace_missing ns))]])
         \<and> (\<exists>x rest. snd (snd (ArchiveRepository c True owner ns repo h)) =
               [Log InfoLevel ''Creating archive namespace %s...'' [S ns],
                Call (OrganizationsGet ns) (Some e1),
                Call (UsersGet ns) (Some e2),
                Log ErrorLevel ''Archive namespace %s does not exist'' [S ns],
                Printf ''ERROR CONTINUANCE: %v'' [E (Some (namespace_missing ns))],
                Log InfoLevel ''Forking %s/%s to %s...'' [S owner, S repo, S ns],
                Call (RepositoriesGet ns repo) x] @ rest)"
proof -
  note ns = CreateArchiveNamespace_missing [OF org usr]
  have a: "\<And>force. \<exists>err2 h3 ev3. ForkRepository c force owner repo ns h2 = (err2, h3, ev3)"
    by (metis prod_cases3)
  have b: "\<And>force h3. \<exists>err3 h4 ev5. DeleteRepository c force owner repo h3 = (err3, h4, ev5)"
    by (metis prod_cases3)
  have d: "\<And>force h4. \<exists>err4 h5 ev7. SetArchiveStatus c force ns repo True h4 = (err4, h5, ev7)"
    by (metis prod_cases3)
  obtain err2 h3 ev3 err3 h4 ev5 err4 h5 ev7 where
        f: "ForkRepository c False owner repo ns h2 = (err2, h3, ev3)"
    and g: "DeleteRepository c False owner repo h3 = (err3, h4, ev5)"
    and s: "SetArchiveStatus c False ns repo True h4 = (err4, h5, ev7)"
    using a b d by metis
  have first: "ArchiveRepository c False owner ns repo h =
           (Some (Errorf ''failed to create archive namespace: %w'' [E (Some (namespace_missing ns))]),
            h2,
            [Log InfoLevel ''Creating archive namespace %s...'' [S ns],
             Call (OrganizationsGet ns) (Some e1),
             Call (UsersGet ns) (Some e2),
             Log ErrorLevel ''Archive namespace %s does not exist'' [S ns],
             Printf ''ERROR CONTINUANCE: %v'' [E (Some (namespace_missing ns))],
             Log ErrorLevel ''Failed to create archive namespace %s: %v''
               [S ns, E (Some (namespace_missing ns))]])"
    by (simp add: ArchiveRepository_steps [OF ns f g s] ForceProcessing_False)
  obtain err2' h3' ev3' err3' h4' ev5' err4' h5' ev7' where
        f': "ForkRepository c True owner repo ns h2 = (err2', h3', ev3')"
    and g': "DeleteRepository c True owner repo h3' = (err3', h4', ev5')"
    and s': "SetArchiveStatus c True ns repo True h4' = (err4', h5', ev7')"
    using a b d by metis
  obtain x rest where ev3': "ev3' = Call (RepositoriesGet ns repo) x # rest"
    using ForkRepository_first_call [of c True owner repo ns h2] f' by auto
  have second: "\<exists>x rest. snd (snd (ArchiveRepository c True owner ns repo h)) =
               [Log InfoLevel ''Creating archive namespace %s...'' [S ns],
                Call (OrganizationsGet ns) (Some e1),
                Call (UsersGet ns) (Some e2),
                Log ErrorLevel ''Archive namespace %s does not exist'' [S ns],
                Printf ''ERROR CONTINUANCE: %v'' [E (Some (namespace_missing ns))],
                Log InfoLevel ''Forking %s/%s to %s...'' [S owner, S repo, S ns],
                Call (RepositoriesGet ns repo) x] @ rest"
    by (simp add: ArchiveRepository_steps [OF ns f' g' s'] ForceProcessing_True ev3')
  from first second show ?thesis by (rule conjI)
qed

theorem ArchiveRepository_namespace_missing_witness:
  "Organizations_Get sim_api ''alice-archive'' alice_host = (Some not_found, alice_host)
   \<and> Users_Get sim_api ''alice-archive'' alice_host = (Some not_found, alice_host)
   \<and> ArchiveRepository sim_api False ''alice'' ''alice-archive'' ''old-proj'' alice_host =
     (Some (Errorf ''failed to create archive namespace: %w''
              [E (Some (namespace_missing ''alice-archive''))]),
      alice_host,
      [Log InfoLevel ''Creating archive namespace %s...'' [S ''alice-archive''],
       Call (OrganizationsGet ''alice-archive'') (Some not_found),
       Call (UsersGet ''alice-archive'') (Some not_found),
       Log ErrorLevel ''Archive namespace %s does not exist'' [S ''alice-archive''],
       Printf ''ERROR CONTINUANCE: %v'' [E (Some (namespace_missing ''alice-archive''))],
       Log ErrorLevel ''Failed to create archive namespace %s: %v''
         [S ''alice-archive'', E (Some (namespace_missing ''alice-archive''))]])"
proof -
  have org: "Organizations_Get sim_api ''alice-archive'' alice_host = (Some not_found, alice_host)"
    by (simp add: sim_api_def sim_Organizations_Get_def alice_host_def)
  have usr: "Users_Get sim_api ''alice-archive'' alice_host = (Some not_found, alice_host)"
    by (simp add: sim_api_def sim_Users_Get_def alice_host_def)
  show ?thesis
    using org usr ArchiveRepository_namespace_missing [OF org usr, of "''alice''" "''old-proj''"]
    by simp
qed

text \<open>
  Claim C5. The fork step is idempotent. Whenever the probe for a repository of
  the same name under the archive namespace succeeds, \<^verbatim>\<open>ForkRepository\<close> succeeds
  without any further call and leaves the host as the probe left it, and no fork
  is requested anywhere in the run; when the transaction reaches the fork step
  (the namespace step returned no error, or the force flag is set), the next
  thing it does after the probe is the propagation wait, followed by the delete
  step.
\<close>

theorem ArchiveRepository_fork_idempotent:
  assumes ns: "CreateArchiveNamespace c ns h = (err1, h1, ev1)"
      and probe: "Repositories_Get c ns repo h1 = ((r, None), h2)"
  shows "ForkRepository c force owner repo ns h1 =
           (None, h2,
            [Call (RepositoriesGet ns repo) None,
             Log InfoLevel ''Repository %s/%s already exists, skipping fork creation'' [S ns, S repo]])
         \<and> (force \<or> err1 = None \<longrightarrow>
              (\<exists>x rest. snd (snd (ArchiveRepository c force owner ns repo h)) =
                 [Log InfoLevel ''Creating archive namespace %s...'' [S ns]] @ ev1 @
                 snd (ForceProcessing force err1) @
                 [Log InfoLevel ''Forking %s/%s to %s...'' [S owner, S repo, S ns],
                  Call (RepositoriesGet ns repo) None,
                  Log InfoLevel ''Repository %s/%s already exists, skipping fork creation'' [S ns, S repo],
                  Sleep 5000,
                  Log InfoLevel ''Deleting original repository %s/%s...'' [S owner, S repo],
                  Call (RepositoriesDelete owner repo) x] @ rest))
         \<and> (\<forall>a b d. RepositoriesCreateFork a b d
                  \<notin> set (calls (snd (snd (ArchiveRepository c force owner ns repo h)))))"
proof -
  note f = ForkRepository_exists [OF probe, of force owner]
  obtain err3 h3 ev5 where d: "DeleteRepository c force owner repo h2 = (err3, h3, ev5)"
    by (metis prod_cases3)
  obtain err4 h4 ev7 where s: "SetArchiveStatus c force ns repo True h3 = (err4, h4, ev7)"
    by (metis prod_cases3)
  obtain x h3' where api: "Repositories_Delete c owner repo h2 = (x, h3')"
    by (metis surj_pair)
  have ev5: "\<exists>rest. ev5 = Call (RepositoriesDelete owner repo) x # rest"
    using d by (auto simp add: DeleteRepository_result [OF api])
  have calls5: "calls ev5 = [RepositoriesDelete owner repo]"
    using calls_DeleteRepository [of c force owner repo h2] d by simp
  have calls1: "calls ev1 = [OrganizationsGet ns] \<or> calls ev1 = [OrganizationsGet ns, UsersGet ns]"
    using calls_CreateArchiveNamespace [of c ns h] ns by simp
  have calls7: "\<forall>a b d. RepositoriesCreateFork a b d \<notin> set (calls ev7)"
    using calls_SetArchiveStatus(2) [of _ _ _ c force ns repo True h3] s by simp
  note steps = ArchiveRepository_steps [OF ns f d s]
  have second: "force \<or> err1 = None \<longrightarrow>
              (\<exists>x rest. snd (snd (ArchiveRepository c force owner ns repo h)) =
                 [Log InfoLevel ''Creating archive namespace %s...'' [S ns]] @ ev1 @
                 snd (ForceProcessing force err1) @
                 [Log InfoLevel ''Forking %s/%s to %s...'' [S owner, S repo, S ns],
                  Call (RepositoriesGet ns repo) None,
                  Log InfoLevel ''Repository %s/%s already exists, skipping fork creation'' [S ns, S repo],
                  Sleep 5000,
                  Log InfoLevel ''Deleting original repository %s/%s...'' [S owner, S repo],
                  Call (RepositoriesDelete owner repo) x] @ rest)"
  proof
    assume "force \<or> err1 = None"
    then have fp1: "fst (ForceProcessing force err1) = False"
      by (auto simp add: ForceProcessing_def)
    show "\<exists>x rest. snd (snd (ArchiveRepository c force owner ns repo h)) =
                 [Log InfoLevel ''Creating archive namespace %s...'' [S ns]] @ ev1 @
                 snd (ForceProcessing force err1) @
                 [Log InfoLevel ''Forking %s/%s to %s...'' [S owner, S repo, S ns],
                  Call (RepositoriesGet ns repo) None,
                  Log InfoLevel ''Repository %s/%s already exists, skipping fork creation'' [S ns, S repo],
                  Sleep 5000,
                  Log InfoLevel ''Deleting original repository %s/%s...'' [S owner, S repo],
                  Call (RepositoriesDelete owner repo) x] @ rest"
      using ev5 by (auto simp add: steps fp1 ForceProcessing_None)
  qed
  have third: "\<forall>a b d. RepositoriesCreateFork a b d
                  \<notin> set (calls (snd (snd (ArchiveRepository c force owner ns repo h))))"
    using calls1 calls5 calls7
    by (auto simp add: steps ForceProcessing_None calls_append calls_ForceProcessing)
  from f second third show ?thesis by blast
qed

theorem ArchiveRepository_fork_idempotent_witness:
  "CreateArchiveNamespace sim_api ''alice-archive'' alice_forked_host =
     (None, alice_forked_host,
      [Call (OrganizationsGet ''alice-archive'') (Some not_found),
       Call (UsersGet ''alice-archive'') None])
   \<and> Repositories_Get sim_api ''alice-archive'' ''old-proj'' alice_forked_host =
       ((Some \<lparr>PushedAt = Some 100, Archived = Some False\<rparr>, None), alice_forked_host)
   \<and> ForkRepository sim_api False ''alice'' ''old-proj'' ''alice-archive'' alice_forked_host =
       (None, alice_forked_host,
        [Call (RepositoriesGet ''alice-archive'' ''old-proj'') None,
         Log InfoLevel ''Repository %s/%s already exists, skipping fork creation''
           [S ''alice-archive'', S ''old-proj'']])
   \<and> (\<exists>x rest.
         snd (snd (ArchiveRepository sim_api False ''alice'' ''alice-archive'' ''old-proj''
                     alice_forked_host)) =
         [Log InfoLevel ''Creating archive namespace %s...'' [S ''alice-archive''],
          Call (OrganizationsGet ''alice-archive'') (Some not_found),
          Call (UsersGet ''alice-archive'') None,
          Log InfoLevel ''Forking %s/%s to %s...'' [S ''alice'', S ''old-proj'', S ''alice-archive''],
          Call (RepositoriesGet ''alice-archive'' ''old-proj'') None,
          Log InfoLevel ''Repository %s/%s already exists, skipping fork creation''
            [S ''alice-archive'', S ''old-proj''],
          Sleep 5000,
          Log InfoLevel ''Deleting original repository %s/%s...'' [S ''alice'', S ''old-proj''],
          Call (RepositoriesDelete ''alice'' ''old-proj'') x] @ rest)
   \<and> (\<forall>a b d. RepositoriesCreateFork a b d
          \<notin> set (calls (snd (snd (ArchiveRepository sim_api False ''alice'' ''alice-archive''
                                      ''old-proj'' alice_forked_host)))))"
proof -
  have ns: "CreateArchiveNamespace sim_api ''alice-archive'' alice_forked_host =
     (None, alice_forked_host,
      [Call (OrganizationsGet ''alice-archive'') (Some not_found),
       Call (UsersGet ''alice-archive'') None])"
    by (simp add: CreateArchiveNamespace_def sim_defs alice_forked_host_def
          alice_archive_host_def alice_host_def)
  have probe: "Repositories_Get sim_api ''alice-archive'' ''old-proj'' alice_forked_host =
       ((Some \<lparr>PushedAt = Some 100, Archived = Some False\<rparr>, None), alice_forked_host)"
    by (simp add: sim_defs alice_forked_host_def alice_archive_host_def alice_host_def)
  show ?thesis
    using ns probe
      ArchiveRepository_fork_idempotent [OF ns probe, of False "''alice''"]
    by (simp add: ForceProcessing_None)
qed

text \<open>
  Claim C6. On a run in which every step succeeds and the fork does not exist yet
  (the probe under the archive namespace fails), the transaction calls the
  service in exactly this order, each call once: the namespace verification (the
  organization check, and the user check if that one failed), the probe and the
  fork of \<open>owner/repo\<close> into the archive namespace, then after the wait of five
  seconds the delete of \<open>owner/repo\<close>, then the fetch of the fork and the edit that
  sets its archived flag. It returns no error, and the host ends in the state the
  edit produced.
\<close>

theorem ArchiveRepository_success_order:
  assumes ns: "CreateArchiveNamespace c ns h = (None, h1, ev1)"
      and probe: "Repositories_Get c ns repo h1 = ((r0, Some e), h2)"
      and fork: "Repositories_CreateFork c owner repo ns h2 = (None, h3)"
      and del: "Repositories_Delete c owner repo h3 = (None, h4)"
      and get: "Repositories_Get c ns repo h4 = ((Some r, None), h5)"
      and edit: "Repositories_Edit c ns repo (r\<lparr>Archived := Some True\<rparr>) h5 = (None, h6)"
  shows "ArchiveRepository c force owner ns repo h =
           (None, h6,
            [Log InfoLevel ''Creating archive namespace %s...'' [S ns]] @ ev1 @
            [Log InfoLevel ''Forking %s/%s to %s...'' [S owner, S repo, S ns],
             Call (RepositoriesGet ns repo) (Some e),
             Call (RepositoriesCreateFork owner repo ns) None,
             Sleep 5000,
             Log InfoLevel ''Deleting original repository %s/%s...'' [S owner, S repo],
             Call (RepositoriesDelete owner repo) None,
             Log InfoLevel ''Setting archived status on %s/%s...'' [S ns, S repo],
             Call (RepositoriesGet ns repo) None,
             Call (RepositoriesEdit ns repo (r\<lparr>Archived := Some True\<rparr>)) None,
             Log InfoLevel ''Repository %s successfully archived to %s/%s'' [S repo, S ns, S repo]])
         \<and> (ev1 = [Call (OrganizationsGet ns) None]
              \<or> (\<exists>e1. ev1 = [Call (OrganizationsGet ns) (Some e1), Call (UsersGet ns) None]))"
proof -
  note f = ForkRepository_created [OF probe fork, of force]
  have d: "DeleteRepository c force owner repo h3 =
             (None, h4, [Call (RepositoriesDelete owner repo) None])"
    by (simp add: DeleteRepository_result [OF del] ForceProcessing_None)
  note s = SetArchiveStatus_ok [OF get edit, of force]
  have "ArchiveRepository c force owner ns repo h =
           (None, h6,
            [Log InfoLevel ''Creating archive namespace %s...'' [S ns]] @ ev1 @
            [Log InfoLevel ''Forking %s/%s to %s...'' [S owner, S repo, S ns],
             Call (RepositoriesGet ns repo) (Some e),
             Call (RepositoriesCreateFork owner repo ns) None,
             Sleep 5000,
             Log InfoLevel ''Deleting original repository %s/%s...'' [S owner, S repo],
             Call (RepositoriesDelete owner repo) None,
             Log InfoLevel ''Setting archived status on %s/%s...'' [S ns, S repo],
             Call (RepositoriesGet ns repo) None,
             Call (RepositoriesEdit ns repo (r\<lparr>Archived := Some True\<rparr>)) None,
             Log InfoLevel ''Repository %s successfully archived to %s/%s'' [S repo, S ns, S repo]])"
    by (simp add: ArchiveRepository_steps [OF ns f d s] ForceProcessing_None)
  with CreateArchiveNamespace_ok [OF ns] show ?thesis by (rule conjI [rotated])
qed


theorem ArchiveRepository_success_order_witness:
  "ArchiveRepository sim_api False ''alice'' ''alice-archive'' ''old-proj'' alice_archive_host =
     (None,
      alice_archive_host\<lparr>hosted :=
        [((''alice-archive'', ''old-proj''), \<lparr>PushedAt = Some 100, Archived = Some True\<rparr>)]\<rparr>,
      [Log InfoLevel ''Creating archive namespace %s...'' [S ''alice-archive''],
       Call (OrganizationsGet ''alice-archive'') (Some not_found),
       Call (UsersGet ''alice-archive'') None,
       Log InfoLevel ''Forking %s/%s to %s...'' [S ''alice'', S ''old-proj'', S ''alice-archive''],
       Call (RepositoriesGet ''alice-archive'' ''old-proj'') (Some not_found),
       Call (RepositoriesCreateFork ''alice'' ''old-proj'' ''alice-archive'') None,
       Sleep 5000,
       Log InfoLevel ''Deleting original repository %s/%s...'' [S ''alice'', S ''old-proj''],
       Call (RepositoriesDelete ''alice'' ''old-proj'') None,
       Log InfoLevel ''Setting archived status on %s/%s...'' [S ''alice-archive'', S ''old-proj''],
       Call (RepositoriesGet ''alice-archive'' ''old-proj'') None,
       Call (RepositoriesEdit ''alice-archive'' ''old-proj''
               \<lparr>PushedAt = Some 100, Archived = Some True\<rparr>) None,
       Log InfoLevel ''Repository %s successfully archived to %s/%s''
         [S ''old-proj'', S ''alice-archive'', S ''old-proj'']])"
proof -
  define forked where "forked = alice_archive_host\<lparr>hosted :=
     [((''alice'', ''old-proj''), \<lparr>PushedAt = Some 100, Archived = Some False\<rparr>),
      ((''alice-archive'', ''old-proj''), \<lparr>PushedAt = Some 100, Archived = Some False\<rparr>)]\<rparr>"
  define deleted where "deleted = alice_archive_host\<lparr>hosted :=
     [((''alice-archive'', ''old-proj''), \<lparr>PushedAt = Some 100, Archived = Some False\<rparr>)]\<rparr>"
  define archived where "archived = alice_archive_host\<lparr>hosted :=
     [((''alice-archive'', ''old-proj''), \<lparr>PushedAt = Some 100, Archived = Some True\<rparr>)]\<rparr>"
  have ns: "CreateArchiveNamespace sim_api ''alice-archive'' alice_archive_host =
     (None, alice_archive_host,
      [Call (OrganizationsGet ''alice-archive'') (Some not_found),
       Call (UsersGet ''alice-archive'') None])"
    by (simp add: CreateArchiveNamespace_def sim_defs alice_archive_host_def alice_host_def)
  have probe: "Repositories_Get sim_api ''alice-archive'' ''old-proj'' alice_archive_host =
       ((None, Some not_found), alice_archive_host)"
    by (simp add: sim_defs alice_archive_host_def alice_host_def)
  have fork: "Repositories_CreateFork sim_api ''alice'' ''old-proj'' ''alice-archive''
                alice_archive_host = (None, forked)"
    by (simp add: sim_defs alice_archive_host_def alice_host_def forked_def)
  have del: "Repositories_Delete sim_api ''alice'' ''old-proj'' forked = (None, deleted)"
    by (simp add: sim_defs alice_archive_host_def alice_host_def forked_def deleted_def)
  have get: "Repositories_Get sim_api ''alice-archive'' ''old-proj'' deleted =
       ((Some \<lparr>PushedAt = Some 100, Archived = Some False\<rparr>, None), deleted)"
    by (simp add: sim_defs alice_archive_host_def alice_host_def deleted_def)
  have edit: "Repositories_Edit sim_api ''alice-archive'' ''old-proj''
                (\<lparr>PushedAt = Some 100, Archived = Some False\<rparr>\<lparr>Archived := Some True\<rparr>) deleted =
              (None, archived)"
    by (simp add: sim_defs alice_archive_host_def alice_host_def deleted_def archived_def)
  show ?thesis
    using ArchiveRepository_success_order [OF ns probe fork del get edit, of False]
    by (simp add: archived_def)
qed

text \<open>
  Claim C8. When the force flag is set and the delete of the original fails, the
  transaction does not abort: the error is written to the log, the next service
  call is the fetch that opens the set-archived step, and the transaction returns
  no error.
\<close>

theorem ArchiveRepository_forced_delete_failure:
  assumes failed: "Call (RepositoriesDelete owner repo) (Some e)
                     \<in> set (snd (snd (ArchiveRepository c True owner ns repo h)))"
  shows "fst (ArchiveRepository c True owner ns repo h) = None
         \<and> (\<exists>pre x post. snd (snd (ArchiveRepository c True owner ns repo h)) =
               pre @
               [Call (RepositoriesDelete owner repo) (Some e),
                Printf ''ERROR CONTINUANCE: %v'' [E (Some e)],
                Log InfoLevel ''Setting archived status on %s/%s...'' [S ns, S repo],
                Call (RepositoriesGet ns repo) x] @ post)"
proof -
  obtain err1 h1 ev1 where ns: "CreateArchiveNamespace c ns h = (err1, h1, ev1)"
    by (metis prod_cases3)
  obtain err2 h2 ev3 where f: "ForkRepository c True owner repo ns h1 = (err2, h2, ev3)"
    by (metis prod_cases3)
  obtain err h3 where api: "Repositories_Delete c owner repo h2 = (err, h3)"
    by (metis surj_pair)
  note d = DeleteRepository_forced [OF api]
  obtain err4 h4 ev7 where s: "SetArchiveStatus c True ns repo True h3 = (err4, h4, ev7)"
    by (metis prod_cases3)
  obtain x rest where ev7: "ev7 = Call (RepositoriesGet ns repo) x # rest"
    using SetArchiveStatus_first_call [of c True ns repo True h3] s by auto
  define pre where "pre = [Log InfoLevel ''Creating archive namespace %s...'' [S ns]] @ ev1 @
       snd (ForceProcessing True err1) @
       [Log InfoLevel ''Forking %s/%s to %s...'' [S owner, S repo, S ns]] @ ev3 @
       snd (ForceProcessing True err2) @
       [Sleep 5000, Log InfoLevel ''Deleting original repository %s/%s...'' [S owner, S repo]]"
  define post where "post = rest @ snd (ForceProcessing True err4) @
       [Log InfoLevel ''Repository %s successfully archived to %s/%s'' [S repo, S ns, S repo]]"
  have run: "ArchiveRepository c True owner ns repo h =
      (None, h4,
       pre @ Call (RepositoriesDelete owner repo) err # snd (ForceProcessing True err) @
       [Log InfoLevel ''Setting archived status on %s/%s...'' [S ns, S repo],
        Call (RepositoriesGet ns repo) x] @ post)"
    by (simp add: ArchiveRepository_steps [OF ns f d s] ForceProcessing_True pre_def post_def ev7)
  have no1: "RepositoriesDelete owner repo \<notin> set (calls ev1)"
    using calls_CreateArchiveNamespace [of c ns h] ns by auto
  have no3: "RepositoriesDelete owner repo \<notin> set (calls ev3)"
    using calls_ForkRepository [of c True owner repo ns h1] f by auto
  have no7: "RepositoriesDelete owner repo \<notin> set (calls ev7)"
    using calls_SetArchiveStatus(1) [of owner repo c True ns repo True h3] s by simp
  have nopre: "Call (RepositoriesDelete owner repo) (Some e) \<notin> set pre"
    using no1 no3 Call_in_calls Call_notin_ForceProcessing by (auto simp add: pre_def)
  have nopost: "Call (RepositoriesDelete owner repo) (Some e) \<notin> set post"
    using no7 Call_in_calls [of "RepositoriesDelete owner repo" "Some e" ev7]
      Call_notin_ForceProcessing
    by (auto simp add: post_def ev7)
  have "err = Some e"
    using failed nopre nopost Call_notin_ForceProcessing [of "RepositoriesDelete owner repo" "Some e" True err]
    by (auto simp add: run)
  then have "snd (snd (ArchiveRepository c True owner ns repo h)) =
               pre @
               [Call (RepositoriesDelete owner repo) (Some e),
                Printf ''ERROR CONTINUANCE: %v'' [E (Some e)],
                Log InfoLevel ''Setting archived status on %s/%s...'' [S ns, S repo],
                Call (RepositoriesGet ns repo) x] @ post"
    by (simp add: run ForceProcessing_True)
  then have "\<exists>pre x post. snd (snd (ArchiveRepository c True owner ns repo h)) =
               pre @
               [Call (RepositoriesDelete owner repo) (Some e),
                Printf ''ERROR CONTINUANCE: %v'' [E (Some e)],
                Log InfoLevel ''Setting archived status on %s/%s...'' [S ns, S repo],
                Call (RepositoriesGet ns repo) x] @ post"
    by blast
  moreover have "fst (ArchiveRepository c True owner ns repo h) = None"
    by (simp add: run)
  ultimately show ?thesis by (rule conjI [rotated])
qed


theorem ArchiveRepository_forced_delete_failure_witness:
  "Call (RepositoriesDelete ''alice'' ''old-proj'') (Some unavailable)
     \<in> set (snd (snd (ArchiveRepository sim_api True ''alice'' ''alice-archive'' ''old-proj''
                        alice_delete_down_host)))
   \<and> fst (ArchiveRepository sim_api True ''alice'' ''alice-archive'' ''old-proj''
            alice_delete_down_host) = None
   \<and> (\<exists>pre x post.
         snd (snd (ArchiveRepository sim_api True ''alice'' ''alice-archive'' ''old-proj''
                     alice_delete_down_host)) =
         pre @
         [Call (RepositoriesDelete ''alice'' ''old-proj'') (Some unavailable),
          Printf ''ERROR CONTINUANCE: %v'' [E (Some unavailable)],
          Log InfoLevel ''Setting archived status on %s/%s...'' [S ''alice-archive'', S ''old-proj''],
          Call (RepositoriesGet ''alice-archive'' ''old-proj'') x] @ post)"
proof -
  have failed: "Call (RepositoriesDelete ''alice'' ''old-proj'') (Some unavailable)
     \<in> set (snd (snd (ArchiveRepository sim_api True ''alice'' ''alice-archive'' ''old-proj''
                        alice_delete_down_host)))"
    by (simp add: ArchiveRepository_def CreateArchiveNamespace_def ForkRepository_def
          DeleteRepository_def SetArchiveStatus_def ForceProcessing_def Let_def sim_defs
          alice_delete_down_host_def alice_archive_host_def alice_host_def)
  from failed ArchiveRepository_forced_delete_failure [OF failed] show ?thesis
    by (rule conjI)
qed

section \<open>The inactivity classifier\<close>

text \<open>
  Claim C7. \<^verbatim>\<open>GetLastActivity\<close> asks the service for the repository and then for
  its issues sorted by update time, descending, one per page. On a service that
  honours the order it is asked for, when the repository fetch succeeds the result
  is the later of the repository's last-push timestamp and the update time of the
  most recently updated issue or pull request among those the service lists (the
  program sets no filter), and no error; when the issue query fails, under either
  value of the force flag, the result is still no error and the push timestamp
  alone.
\<close>

theorem GetLastActivity_later_of:
  assumes get: "Repositories_Get c owner repo h = ((repository, None), h1)"
      and iss: "Issues_ListByRepo c owner repo
                  \<lparr>Sort = ''updated'', Direction = ''desc'', PerPage = 1\<rparr> h1 = ((issues, err'), h2)"
      and honoured: "\<And>opts page h'. Issues_ListByRepo c owner repo opts h1 = ((page, None), h')
                        \<Longrightarrow> honours opts all page"
  shows "fst (GetLastActivity c force owner repo h) =
           (if err' = None then authoritative (GetPushedAt repository) all
            else GetPushedAt repository)
         \<and> fst (snd (GetLastActivity c force owner repo h)) = None
         \<and> (err' \<noteq> None \<longrightarrow> fst (GetLastActivity c force owner repo h) = GetPushedAt repository)
         \<and> calls (snd (snd (snd (GetLastActivity c force owner repo h)))) =
             [RepositoriesGet owner repo,
              IssuesListByRepo owner repo \<lparr>Sort = ''updated'', Direction = ''desc'', PerPage = 1\<rparr>]"
proof -
  have iss': "Issues_ListByRepo c owner repo issueOpts h1 = ((issues, err'), h2)"
    using iss by (simp add: issueOpts_def)
  note steps = GetLastActivity_steps [OF get iss', of force]
  have val: "fst (GetLastActivity c force owner repo h) =
           (if err' = None then authoritative (GetPushedAt repository) all
            else GetPushedAt repository)"
  proof (cases err')
    case None
    then have "honours issueOpts all issues"
      using honoured [of issueOpts issues h2] iss' by simp
    from honoured_page [OF this, of "GetPushedAt repository"] None show ?thesis
      by (simp add: steps ForceProcessing_None)
  next
    case (Some e)
    then show ?thesis by (simp add: steps ForceProcessing_None)
  qed
  have err: "fst (snd (GetLastActivity c force owner repo h)) = None"
    by (simp add: steps ForceProcessing_None)
  have cl: "calls (snd (snd (snd (GetLastActivity c force owner repo h)))) =
             [RepositoriesGet owner repo,
              IssuesListByRepo owner repo \<lparr>Sort = ''updated'', Direction = ''desc'', PerPage = 1\<rparr>]"
    using calls_GetLastActivity [of c force owner repo h] err by (simp add: issueOpts_def)
  from val err cl show ?thesis by simp
qed

theorem GetLastActivity_later_of_witness:
  "Repositories_Get sim_api ''alice'' ''old-proj'' alice_issue_host =
     ((Some \<lparr>PushedAt = Some 100, Archived = Some False\<rparr>, None), alice_issue_host)
   \<and> Issues_ListByRepo sim_api ''alice'' ''old-proj''
       \<lparr>Sort = ''updated'', Direction = ''desc'', PerPage = 1\<rparr> alice_issue_host =
     (([Some \<lparr>UpdatedAt = Some 250\<rparr>], None), alice_issue_host)
   \<and> sim_issues alice_issue_host ''alice'' ''old-proj'' =
       [Some \<lparr>UpdatedAt = Some 10\<rparr>, Some \<lparr>UpdatedAt = Some 250\<rparr>]
   \<and> fst (GetLastActivity sim_api False ''alice'' ''old-proj'' alice_issue_host) = 250
   \<and> fst (snd (GetLastActivity sim_api False ''alice'' ''old-proj'' alice_issue_host)) = None"
proof -
  have get: "Repositories_Get sim_api ''alice'' ''old-proj'' alice_issue_host =
     ((Some \<lparr>PushedAt = Some 100, Archived = Some False\<rparr>, None), alice_issue_host)"
    by (simp add: sim_defs host_defs)
  have iss: "Issues_ListByRepo sim_api ''alice'' ''old-proj''
       \<lparr>Sort = ''updated'', Direction = ''desc'', PerPage = 1\<rparr> alice_issue_host =
     (([Some \<lparr>UpdatedAt = Some 250\<rparr>], None), alice_issue_host)"
    by (simp add: sim_defs host_defs GetUpdatedAt_def)
  have all: "sim_issues alice_issue_host ''alice'' ''old-proj'' =
       [Some \<lparr>UpdatedAt = Some 10\<rparr>, Some \<lparr>UpdatedAt = Some 250\<rparr>]"
    by (simp add: sim_issues_def host_defs)
  show ?thesis
    using get iss all
      GetLastActivity_later_of [OF get iss sim_honours, where force = False]
    by (simp add: authoritative_fold GetPushedAt_def GetUpdatedAt_def)
qed

text \<open>
  Claim C3. For every input, no repository with \<open>IsArchived\<close> set occurs in the
  output of \<^verbatim>\<open>FindInactiveRepositories\<close>, whatever its timestamps, and the service
  calls of the run are lookups for the non-archived repositories only: in input
  order a repository fetch and an issue query for each, all of them when the run
  succeeds and an initial part of them when it aborts.
\<close>

theorem FindInactiveRepositories_skips_archived:
  "(\<forall>r. IsArchived r \<longrightarrow>
        r \<notin> set (fst (snd (FindInactiveRepositories c force inactivityPeriod now repos h))))
   \<and> prefix (calls (snd (snd (snd (snd (FindInactiveRepositories c force inactivityPeriod now repos h))))))
        (lookups repos)
   \<and> (fst (snd (snd (FindInactiveRepositories c force inactivityPeriod now repos h))) = None \<longrightarrow>
        calls (snd (snd (snd (snd (FindInactiveRepositories c force inactivityPeriod now repos h))))) =
          lookups repos)"
proof -
  obtain repos0 inactiveRepos err h0 ev1 where
    loop: "range_loop c force (Add now (- inactivityPeriod)) [0..<length repos] repos [] h =
             (repos0, inactiveRepos, err, h0, ev1)"
    by (metis prod_cases5)
  note run = FindInactiveRepositories_loop [OF loop]
  have out: "\<forall>r. IsArchived r \<longrightarrow>
        r \<notin> set (fst (snd (FindInactiveRepositories c force inactivityPeriod now repos h)))"
  proof (cases err)
    case None
    then have "inactiveRepos = map (\<lambda>(r, t). r\<lparr>LastActivity := t\<rparr>)
                    (filter (\<lambda>(r, t). t < Add now (- inactivityPeriod))
                       (fetched c force (filter (\<lambda>r. \<not> IsArchived r) repos) h))"
      using FindInactiveRepositories_result [of c force inactivityPeriod now repos h] run by simp
    moreover have "\<forall>p \<in> set (fetched c force (filter (\<lambda>r. \<not> IsArchived r) repos) h).
                 \<not> IsArchived (fst p)"
    proof
      fix p
      assume "p \<in> set (fetched c force (filter (\<lambda>r. \<not> IsArchived r) repos) h)"
      then have "fst p \<in> set (map fst (fetched c force (filter (\<lambda>r. \<not> IsArchived r) repos) h))"
        by simp
      then have "fst p \<in> set (filter (\<lambda>r. \<not> IsArchived r) repos)"
        by (simp only: fetched_inputs)
      then show "\<not> IsArchived (fst p)" by simp
    qed
    ultimately show ?thesis using None by (auto simp add: run)
  next
    case (Some e)
    then show ?thesis by (simp add: run)
  qed
  have cl: "calls (snd (snd (snd (snd (FindInactiveRepositories c force inactivityPeriod now repos h))))) =
            calls ev1"
    by (simp add: run calls_append)
  have er: "fst (snd (snd (FindInactiveRepositories c force inactivityPeriod now repos h))) = err"
    by (simp add: run)
  show ?thesis
    using out range_loop_calls [of c force "Add now (- inactivityPeriod)" "[0..<length repos]" repos "[]" h]
      loop
    unfolding cl er by (simp add: map_nth)
qed

theorem FindInactiveRepositories_skips_archived_witness:
  "IsArchived attic
   \<and> attic \<notin> set (fst (snd (FindInactiveRepositories sim_api False 50 200 [old_proj, attic] alice_host)))
   \<and> fst (snd (snd (FindInactiveRepositories sim_api False 50 200 [old_proj, attic] alice_host))) = None
   \<and> calls (snd (snd (snd (snd (FindInactiveRepositories sim_api False 50 200 [old_proj, attic] alice_host))))) =
       [RepositoriesGet ''alice'' ''old-proj'', IssuesListByRepo ''alice'' ''old-proj'' issueOpts]"
proof -
  have a: "IsArchived attic"
    by (simp add: attic_def)
  have ok: "fst (snd (snd (FindInactiveRepositories sim_api False 50 200 [old_proj, attic] alice_host))) = None"
    by (simp add: run_defs sim_defs host_defs old_proj_def attic_def)
  have l: "lookups [old_proj, attic] =
             [RepositoriesGet ''alice'' ''old-proj'', IssuesListByRepo ''alice'' ''old-proj'' issueOpts]"
    by (simp add: lookups_def old_proj_def attic_def)
  show ?thesis
    using a ok l FindInactiveRepositories_skips_archived [of sim_api False 50 200 "[old_proj, attic]" alice_host]
    by simp
qed

text \<open>
  With the force flag set the run succeeds even when a repository fetch failed,
  and the repository is then judged by the zero time and not by its last
  activity. Here the fetch for \<open>alice/old-proj\<close> is out of order; the host holds
  a last push at the instant 100 and no issues, the cutoff is the instant 50, and
  the repository is returned, with the zero time, although its last activity is
  not before the cutoff.
\<close>

theorem FindInactiveRepositories_exact_counterexample:
  "fst (snd (FindInactiveRepositories sim_api True 50 100 [old_proj] alice_fetch_down_host)) =
     [old_proj\<lparr>LastActivity := 0\<rparr>]
   \<and> fst (snd (snd (FindInactiveRepositories sim_api True 50 100 [old_proj] alice_fetch_down_host))) = None
   \<and> sim_last_push alice_fetch_down_host ''alice'' ''old-proj'' = 100
   \<and> sim_issues alice_fetch_down_host ''alice'' ''old-proj'' = []
   \<and> spec_findInactive (sim_last_push alice_fetch_down_host) (sim_issues alice_fetch_down_host)
        (sint (50 :: duration)) 100 [old_proj] = []"
  by (simp add: run_defs sim_defs host_defs old_proj_def spec_findInactive_def authoritative_fold
        sim_last_push_def sim_issues_def)

text \<open>
  Claim C4, as the code has it. On a host that the lookups leave unchanged and
  that answers every repository fetch with the repository's last push and every
  issue query with a page in the order asked for, and for a threshold other than
  the most negative duration, \<^verbatim>\<open>FindInactiveRepositories\<close> succeeds and its output is
  exactly the non-archived input repositories whose authoritative last activity
  (the later of the last push and the most recently updated issue) is strictly
  before \<open>now - threshold\<close>, in input order, each carrying that timestamp.
\<close>

theorem FindInactiveRepositories_exact:
  assumes fetch: "\<And>r. r \<in> set repos \<Longrightarrow> \<not> IsArchived r \<Longrightarrow>
                    \<exists>rp. Repositories_Get c (Owner r) (Name r) h = ((rp, None), h)
                          \<and> GetPushedAt rp = last_push (Owner r) (Name r)"
      and issue: "\<And>r opts. r \<in> set repos \<Longrightarrow> \<not> IsArchived r \<Longrightarrow>
                    \<exists>page. Issues_ListByRepo c (Owner r) (Name r) opts h = ((page, None), h)
                            \<and> honours opts (issues_of (Owner r) (Name r)) page"
      and rep: "sint inactivityPeriod \<noteq> - (2 ^ 63)"
  shows "fst (snd (snd (FindInactiveRepositories c force inactivityPeriod now repos h))) = None
         \<and> fst (snd (FindInactiveRepositories c force inactivityPeriod now repos h)) =
             spec_findInactive last_push issues_of (sint inactivityPeriod) now repos"
proof -
  define ts where "ts = (\<lambda>r :: Repository. authoritative (last_push (Owner r) (Name r)) (issues_of (Owner r) (Name r)))"
  have one: "\<exists>ev. GetLastActivity c force (Owner (repos ! i)) (Name (repos ! i)) h =
                    (ts (repos ! i), None, h, ev)"
    if idx: "i \<in> set [0..<length repos]" and live: "\<not> IsArchived (repos ! i)" for i
  proof -
    have mem: "repos ! i \<in> set repos"
      using idx by simp
    obtain rp where get: "Repositories_Get c (Owner (repos ! i)) (Name (repos ! i)) h = ((rp, None), h)"
      and push: "GetPushedAt rp = last_push (Owner (repos ! i)) (Name (repos ! i))"
      using fetch [OF mem live] by blast
    show ?thesis
      using GetLastActivity_truthful [OF get issue [OF mem live], of force] push
      by (simp add: ts_def)
  qed
  obtain evs where loop:
    "range_loop c force (Add now (- inactivityPeriod)) [0..<length repos] repos [] h =
       (repos,
        [] @ map (\<lambda>r. r\<lparr>LastActivity := ts r\<rparr>)
               (filter (\<lambda>r. \<not> IsArchived r \<and> ts r < Add now (- inactivityPeriod))
                  (map ((!) repos) [0..<length repos])),
        None, h, evs)"
    using range_loop_truthful [of "[0..<length repos]" repos c force h ts
            "Add now (- inactivityPeriod)" "[]"] one
    by blast
  have cut: "Add now (- inactivityPeriod) = now - sint inactivityPeriod"
    using sint_neg_duration [OF rep] by (simp add: Add_def)
  show ?thesis
    by (simp add: FindInactiveRepositories_loop [OF loop] map_nth cut spec_findInactive_def ts_def)
qed

theorem FindInactiveRepositories_exact_witness:
  "fst (snd (snd (FindInactiveRepositories sim_api False 50 1000 [old_proj, attic] alice_issue_host))) = None
   \<and> fst (snd (FindInactiveRepositories sim_api False 50 1000 [old_proj, attic] alice_issue_host)) =
       [old_proj\<lparr>LastActivity := 250\<rparr>]
   \<and> spec_findInactive (sim_last_push alice_issue_host) (sim_issues alice_issue_host)
        (sint (50 :: duration)) 1000 [old_proj, attic] = [old_proj\<lparr>LastActivity := 250\<rparr>]"
proof -
  have none: "outage alice_issue_host = []"
    by (simp add: host_defs)
  have live: "r = old_proj" if "r \<in> set [old_proj, attic]" and "\<not> IsArchived r" for r
    using that by (auto simp add: attic_def)
  have fetch: "\<exists>rp. Repositories_Get sim_api (Owner r) (Name r) alice_issue_host =
                       ((rp, None), alice_issue_host)
                     \<and> GetPushedAt rp = sim_last_push alice_issue_host (Owner r) (Name r)"
    if "r \<in> set [old_proj, attic]" and "\<not> IsArchived r" for r
    unfolding live [OF that]
    by (rule sim_fetch_ok) (simp_all add: host_defs old_proj_def)
  have issue: "\<exists>page. Issues_ListByRepo sim_api (Owner r) (Name r) opts alice_issue_host =
                         ((page, None), alice_issue_host)
                       \<and> honours opts (sim_issues alice_issue_host (Owner r) (Name r)) page"
    if "r \<in> set [old_proj, attic]" and "\<not> IsArchived r" for r opts
    by (rule sim_issue_ok) (simp add: none)
  have rep: "sint (50 :: duration) \<noteq> - (2 ^ 63)"
    by simp
  have spec: "spec_findInactive (sim_last_push alice_issue_host) (sim_issues alice_issue_host)
        (sint (50 :: duration)) 1000 [old_proj, attic] = [old_proj\<lparr>LastActivity := 250\<rparr>]"
    by (simp add: spec_findInactive_def authoritative_fold sim_last_push_def sim_issues_def
          host_defs old_proj_def attic_def GetPushedAt_def GetUpdatedAt_def)
  show ?thesis
    using FindInactiveRepositories_exact [where repos = "[old_proj, attic]" and c = sim_api
            and h = alice_issue_host and last_push = "sim_last_push alice_issue_host"
            and issues_of = "sim_issues alice_issue_host" and inactivityPeriod = 50
            and force = False and now = 1000, OF fetch issue rep]
      spec
    by simp
qed

text \<open>
  The threshold left out above: the cutoff is computed as
  \<^verbatim>\<open>now.Add(-a.inactivityPeriod)\<close>, and for the most negative duration the negation
  wraps to itself, so the cutoff lies 2^63 nanoseconds before \<open>now\<close> and not after
  it. A repository pushed one year before \<open>now\<close> is then left out of the output,
  although its last activity is before \<open>now - threshold\<close>.
\<close>

theorem FindInactiveRepositories_cutoff_wraps:
  "fst (snd (FindInactiveRepositories sim_api False (- 9223372036854775808) 63900000000000000000
               [old_proj] alice_dated_host)) = []
   \<and> fst (snd (snd (FindInactiveRepositories sim_api False (- 9223372036854775808) 63900000000000000000
               [old_proj] alice_dated_host))) = None
   \<and> spec_findInactive (sim_last_push alice_dated_host) (sim_issues alice_dated_host)
       (sint (- 9223372036854775808 :: duration)) 63900000000000000000 [old_proj] =
       [old_proj\<lparr>LastActivity := 63868464000000000000\<rparr>]"
  by (simp add: run_defs sim_defs host_defs old_proj_def spec_findInactive_def authoritative_fold
        sim_last_push_def sim_issues_def)

text \<open>
  Claim C9. \<^verbatim>\<open>FindInactiveRepositories\<close> never changes its input: the caller's slice
  holds the same repository values after the call, whatever the outcome.
\<close>

theorem FindInactiveRepositories_frame:
  "fst (FindInactiveRepositories c force inactivityPeriod now repos h) = repos"
proof -
  obtain repos0 inactiveRepos err h0 ev1 where
    loop: "range_loop c force (Add now (- inactivityPeriod)) [0..<length repos] repos [] h =
             (repos0, inactiveRepos, err, h0, ev1)"
    by (metis prod_cases5)
  have "repos0 = repos"
    using range_loop_frame [of c force "Add now (- inactivityPeriod)" "[0..<length repos]" repos "[]" h]
      loop by simp
  then show ?thesis by (simp add: FindInactiveRepositories_loop [OF loop])
qed

text \<open>
  Under the force flag, a repository whose primary fetch failed is not always
  given the zero timestamp: the issue query is still made, and when it answers,
  the issue's update time is the last activity. Here the fetch for
  \<open>alice/old-proj\<close> fails, the cutoff is the instant 150, after the zero time, and
  the repository is nevertheless not classified as inactive, since its most
  recently updated issue was updated at 250.
\<close>

theorem FindInactiveRepositories_forced_counterexample:
  "Repositories_Get sim_api ''alice'' ''old-proj'' alice_flaky_host =
     ((None, Some unavailable), alice_flaky_host)
   \<and> zero_time < Add 200 (- 50)
   \<and> FindInactiveRepositories sim_api True 50 200 [old_proj] alice_flaky_host =
       ([old_proj], [], None, alice_flaky_host,
        [Log InfoLevel ''Analyzing %d repositories for inactivity'' [N 1],
         Call (RepositoriesGet ''alice'' ''old-proj'') (Some unavailable),
         Printf ''ERROR CONTINUANCE: %v'' [E (Some unavailable)],
         Call (IssuesListByRepo ''alice'' ''old-proj''
                 \<lparr>Sort = ''updated'', Direction = ''desc'', PerPage = 1\<rparr>) None,
         Sleep 100,
         Log InfoLevel ''Found %d inactive repositories out of %d total'' [N 0, N 1]])"
  by (simp add: run_defs sim_defs host_defs old_proj_def)

text \<open>
  Claim C10, as the code has it. When the force flag is set,
  \<^verbatim>\<open>FindInactiveRepositories\<close> never returns an error. Wherever in the input a
  non-archived repository stands whose primary fetch fails (an error and no
  repository object) when the loop reaches it, it is processed with the zero
  timestamp as its last activity, unless the issue query succeeds with an issue
  updated after the zero time, whose update time is then used; it is put in the
  output, between what the repositories before it and those after it contribute,
  exactly when that timestamp is strictly before the cutoff, and the loop goes on
  with the rest of the input.
\<close>

theorem FindInactiveRepositories_forced:
  assumes live: "\<not> IsArchived r"
      and reached: "h = fst (snd (snd (snd (FindInactiveRepositories c True inactivityPeriod now pre h0))))"
      and get: "Repositories_Get c (Owner r) (Name r) h = ((None, Some e), h1)"
      and iss: "Issues_ListByRepo c (Owner r) (Name r)
                  \<lparr>Sort = ''updated'', Direction = ''desc'', PerPage = 1\<rparr> h1 = ((issues, err'), h2)"
  shows "fst (snd (snd (FindInactiveRepositories c True inactivityPeriod now repos h0))) = None
         \<and> fst (snd (FindInactiveRepositories c True inactivityPeriod now (pre @ r # post) h0)) =
             fst (snd (FindInactiveRepositories c True inactivityPeriod now pre h0)) @
             (if (if err' = None \<and> issues \<noteq> [] then max zero_time (GetUpdatedAt (hd issues))
                  else zero_time) < Add now (- inactivityPeriod)
              then [r\<lparr>LastActivity :=
                         if err' = None \<and> issues \<noteq> [] then max zero_time (GetUpdatedAt (hd issues))
                         else zero_time\<rparr>]
              else []) @
             fst (snd (FindInactiveRepositories c True inactivityPeriod now post h2))"
proof -
  obtain repos0 inactiveRepos err h0' ev1 where
    loop: "range_loop c True (Add now (- inactivityPeriod)) [0..<length repos] repos [] h0 =
             (repos0, inactiveRepos, err, h0', ev1)"
    by (metis prod_cases5)
  have "err = None"
    using range_loop_forced [of c "Add now (- inactivityPeriod)" "[0..<length repos]" repos "[]" h0] loop
    by simp
  then have never: "fst (snd (snd (FindInactiveRepositories c True inactivityPeriod now repos h0))) = None"
    by (simp add: FindInactiveRepositories_loop [OF loop])
  define t where "t = (if err' = None \<and> issues \<noteq> [] then max zero_time (GetUpdatedAt (hd issues))
                        else zero_time)"
  have iss': "Issues_ListByRepo c (Owner r) (Name r) issueOpts h1 = ((issues, err'), h2)"
    using iss by (simp add: issueOpts_def)
  obtain ev where la: "GetLastActivity c True (Owner r) (Name r) h = (t, None, h2, ev)"
    by (simp add: GetLastActivity_steps [OF get iss'] ForceProcessing_True GetPushedAt_def t_def)
  from never FindInactiveRepositories_forced_at [OF live reached la, of post]
  show ?thesis unfolding t_def by (rule conjI)
qed

theorem FindInactiveRepositories_forced_witness:
  "\<not> IsArchived old_proj
   \<and> alice_flaky_host =
       fst (snd (snd (snd (FindInactiveRepositories sim_api True 50 400 [attic] alice_flaky_host))))
   \<and> Repositories_Get sim_api (Owner old_proj) (Name old_proj) alice_flaky_host =
       ((None, Some unavailable), alice_flaky_host)
   \<and> Issues_ListByRepo sim_api (Owner old_proj) (Name old_proj)
       \<lparr>Sort = ''updated'', Direction = ''desc'', PerPage = 1\<rparr> alice_flaky_host =
       (([Some \<lparr>UpdatedAt = Some 250\<rparr>], None), alice_flaky_host)
   \<and> fst (snd (snd (FindInactiveRepositories sim_api True 50 400 [attic, old_proj, attic]
                       alice_flaky_host))) = None
   \<and> fst (snd (FindInactiveRepositories sim_api True 50 400 [attic, old_proj, attic]
                  alice_flaky_host)) = [old_proj\<lparr>LastActivity := 250\<rparr>]"
proof -
  have live: "\<not> IsArchived old_proj"
    by (simp add: old_proj_def)
  have reached: "alice_flaky_host =
       fst (snd (snd (snd (FindInactiveRepositories sim_api True 50 400 [attic] alice_flaky_host))))"
    by (simp add: run_defs attic_def)
  have get: "Repositories_Get sim_api (Owner old_proj) (Name old_proj) alice_flaky_host =
       ((None, Some unavailable), alice_flaky_host)"
    by (simp add: sim_defs host_defs old_proj_def)
  have iss: "Issues_ListByRepo sim_api (Owner old_proj) (Name old_proj)
       \<lparr>Sort = ''updated'', Direction = ''desc'', PerPage = 1\<rparr> alice_flaky_host =
       (([Some \<lparr>UpdatedAt = Some 250\<rparr>], None), alice_flaky_host)"
    by (simp add: sim_defs host_defs old_proj_def GetUpdatedAt_def)
  have pre: "fst (snd (FindInactiveRepositories sim_api True 50 400 [attic] alice_flaky_host)) = []"
    by (simp add: run_defs attic_def)
  show ?thesis
    using live reached get iss pre
      FindInactiveRepositories_forced [OF live reached get iss,
        where repos = "[attic, old_proj, attic]" and post = "[attic]"]
    by (simp add: GetUpdatedAt_def zero_time_def Add_def)
qed

end
